theory Spec2Isabelle
  imports Complex_Main "HOL-Library.Countable"
begin

section \<open>JavaScript values used by the Express example\<close>

text \<open>
  The Node/Express example (\<^verbatim>\<open>examples/nodejs/src/index.ts\<close>) keeps its users in a
  process-wide array and computes with JavaScript numbers. A \<^verbatim>\<open>number\<close> is a finite
  value, one of the two infinities, or NaN. Finite values are modelled by their exact
  rational value; addition on them is exact in the model, which agrees with IEEE doubles
  as long as operands and results are integers of magnitude at most \<open>2^53\<close> (every id
  the handlers can produce from the seed collection in fewer than \<open>2^53\<close> creations).
  The number that \<^verbatim>\<open>parseInt\<close> reads from a string is rounded to a double.
\<close>

datatype number = Fin rat | PInf | NInf | NaN

text \<open>The relational operator \<^verbatim>\<open><\<close>: false as soon as one side is NaN.\<close>

fun num_lt :: "number \<Rightarrow> number \<Rightarrow> bool" where
  "num_lt NaN _ = False"
| "num_lt _ NaN = False"
| "num_lt (Fin a) (Fin b) = (a < b)"
| "num_lt _ NInf = False"
| "num_lt NInf _ = True"
| "num_lt PInf _ = False"
| "num_lt _ PInf = True"

text \<open>Strict equality \<^verbatim>\<open>===\<close> on numbers: NaN equals nothing, not even itself.\<close>

definition strict_eq :: "number \<Rightarrow> number \<Rightarrow> bool" where
  "strict_eq a b = (a \<noteq> NaN \<and> b \<noteq> NaN \<and> a = b)"

text \<open>The operator \<^verbatim>\<open>+\<close> on numbers.\<close>

fun num_add :: "number \<Rightarrow> number \<Rightarrow> number" where
  "num_add NaN _ = NaN"
| "num_add _ NaN = NaN"
| "num_add (Fin a) (Fin b) = Fin (a + b)"
| "num_add PInf NInf = NaN"
| "num_add NInf PInf = NaN"
| "num_add PInf _ = PInf"
| "num_add _ PInf = PInf"
| "num_add NInf _ = NInf"
| "num_add _ NInf = NInf"

text \<open>
  \<^verbatim>\<open>Math.max(...xs)\<close>: starts from \<open>-Infinity\<close>, is NaN as soon as one argument is
  NaN, and otherwise the greatest argument.
\<close>

fun max2 :: "number \<Rightarrow> number \<Rightarrow> number" where
  "max2 NaN _ = NaN"
| "max2 _ NaN = NaN"
| "max2 a b = (if num_lt a b then b else a)"

definition Math_max :: "number list \<Rightarrow> number" where
  "Math_max xs = foldl max2 NInf xs"

text \<open>
  A string that \<^verbatim>\<open>parseInt\<close> reads is kept as its list of UTF-16 code units, since the
  white space that \<^verbatim>\<open>parseInt\<close> skips is defined on them. \<open>code_units\<close> gives the code
  units of a string of 8-bit characters.
\<close>

type_synonym js_string = "nat list"

definition code_units :: "string \<Rightarrow> js_string" where
  "code_units s = map of_char s"

text \<open>
  The Number value of an integer: the nearest double, ties to the even significand, and an
  infinity from \<open>2^1024 - 2^970\<close> on, which is half a unit in the last place above the
  largest double.
\<close>

fun bit_length :: "nat \<Rightarrow> nat" where
  "bit_length n = (if n = 0 then 0 else Suc (bit_length (n div 2)))"

declare bit_length.simps [simp del]

definition round53 :: "nat \<Rightarrow> nat" where
  "round53 m =
    (if m < 2 ^ 53 then m
     else
       (let e = bit_length m - 53;
            q = m div 2 ^ e;
            r = m mod 2 ^ e
        in (if 2 ^ e < 2 * r \<or> (2 * r = 2 ^ e \<and> odd q) then q + 1 else q) * 2 ^ e))"

definition to_double :: "int \<Rightarrow> number" where
  "to_double z =
    (let m = nat \<bar>z\<bar> in
     if m < 2 ^ 53 then Fin (of_int z)
     else if 2 ^ 1024 - 2 ^ 970 \<le> m then (if z < 0 then NInf else PInf)
     else Fin (of_int (if z < 0 then - int (round53 m) else int (round53 m))))"

text \<open>
  \<^verbatim>\<open>parseInt(s)\<close> without a radix: leading white space is skipped (the characters of
  \<^verbatim>\<open>WhiteSpace\<close> and \<^verbatim>\<open>LineTerminator\<close>: tab, line feed, vertical tab, form feed,
  carriage return, space, no-break space, U+1680, U+2000 to U+200A, U+2028, U+2029, U+202F,
  U+205F, U+3000 and U+FEFF), an optional sign is read, a \<^verbatim>\<open>0x\<close> or \<^verbatim>\<open>0X\<close> prefix
  selects base 16 (base 10 otherwise), and the longest prefix of digits of that base is the
  value, rounded to a double; with no digit at all the result is NaN. (The language lets an
  engine replace decimal digits after the 20th by zeros; the model reads all digits.)
\<close>

definition is_ws :: "nat \<Rightarrow> bool" where
  "is_ws u =
    (u \<in> set [0x09, 0x0A, 0x0B, 0x0C, 0x0D, 0x20, 0xA0, 0x1680, 0x2028, 0x2029, 0x202F,
               0x205F, 0x3000, 0xFEFF]
     \<or> (0x2000 \<le> u \<and> u \<le> 0x200A))"

definition digit_in :: "nat \<Rightarrow> nat \<Rightarrow> nat option" where
  "digit_in radix u =
    (let d = (if 0x30 \<le> u \<and> u \<le> 0x39 then Some (u - 0x30)
              else if 0x61 \<le> u \<and> u \<le> 0x7A then Some (u - 0x61 + 10)
              else if 0x41 \<le> u \<and> u \<le> 0x5A then Some (u - 0x41 + 10)
              else None)
     in case d of
          Some v \<Rightarrow> if v < radix then Some v else None
        | None \<Rightarrow> None)"

fun digits_prefix :: "nat \<Rightarrow> js_string \<Rightarrow> nat list" where
  "digits_prefix radix [] = []"
| "digits_prefix radix (u # us) =
    (case digit_in radix u of
       Some d \<Rightarrow> d # digits_prefix radix us
     | None \<Rightarrow> [])"

definition strip_sign :: "js_string \<Rightarrow> bool \<times> js_string" where
  "strip_sign s =
    (case s of
       [] \<Rightarrow> (False, [])
     | u # r \<Rightarrow>
         if u = 0x2D then (True, r)
         else if u = 0x2B then (False, r)
         else (False, s))"

definition strip_radix :: "js_string \<Rightarrow> nat \<times> js_string" where
  "strip_radix s =
    (case s of
       a # b # r \<Rightarrow>
         if a = 0x30 \<and> (b = 0x78 \<or> b = 0x58) then (16, r) else (10, s)
     | _ \<Rightarrow> (10, s))"

definition parseInt :: "js_string \<Rightarrow> number" where
  "parseInt s =
    (let (neg, s2) = strip_sign (dropWhile is_ws s);
         (radix, s3) = strip_radix s2;
         ds = digits_prefix radix s3;
         n = int (foldl (\<lambda>acc d. acc * radix + d) 0 ds)
     in if ds = [] then NaN else to_double (if neg then - n else n))"

text \<open>
  \<^verbatim>\<open>Array.prototype.findIndex\<close>: the index of the first element satisfying the
  predicate, \<open>-1\<close> when there is none. (\<^verbatim>\<open>Array.prototype.find\<close> is \<^const>\<open>List.find\<close>,
  with \<open>None\<close> for \<^verbatim>\<open>undefined\<close>.)
\<close>

fun findIndex :: "('a \<Rightarrow> bool) \<Rightarrow> 'a list \<Rightarrow> int" where
  "findIndex p [] = - 1"
| "findIndex p (x # xs) =
    (if p x then 0
     else (let i = findIndex p xs in if i = - 1 then - 1 else i + 1))"

text \<open>\<^verbatim>\<open>xs.splice(i, 1)\<close> for an index inside the array: the element at \<open>i\<close> is removed.\<close>

definition splice1 :: "nat \<Rightarrow> 'a list \<Rightarrow> 'a list" where
  "splice1 i xs = take i xs @ drop (Suc i) xs"

section \<open>Request bodies and the Zod schemas\<close>

text \<open>
  A request body as \<^verbatim>\<open>express.json()\<close> hands it to the handlers: a parsed JSON value.
  An object is its list of properties; \<^const>\<open>map_of\<close> reads a property. Strings are lists
  of 8-bit characters, and \<^const>\<open>length\<close> stands for the \<^verbatim>\<open>length\<close> of a JavaScript
  string.
\<close>

datatype json =
    JNull
  | JBool bool
  | JNum number
  | JStr string
  | JArr "json list"
  | JObj "(string \<times> json) list"

text \<open>
  A Zod issue is kept as its code and the path of the offending field. Zod runs every
  check of every field and collects the issues; \<^verbatim>\<open>parse\<close> throws a \<^verbatim>\<open>ZodError\<close>
  carrying them when there is at least one.
\<close>

datatype zcode = invalid_type | too_small | too_big | invalid_string

type_synonym issue = "zcode \<times> string list"

definition len_checks :: "nat \<Rightarrow> nat \<Rightarrow> string \<Rightarrow> zcode list" where
  "len_checks lo hi s =
    (if length s < lo then [too_small] else []) @ (if hi < length s then [too_big] else [])"

definition email_check :: "(string \<Rightarrow> bool) \<Rightarrow> string \<Rightarrow> zcode list" where
  "email_check ok s = (if ok s then [] else [invalid_string])"

text \<open>\<^verbatim>\<open>z.string()\<close> followed by its checks, on the value found at a key (if any).\<close>

definition zod_string :: "string list \<Rightarrow> (string \<Rightarrow> zcode list) \<Rightarrow> json option \<Rightarrow> issue list + string" where
  "zod_string path checks v =
    (case v of
       Some (JStr s) \<Rightarrow>
         (case checks s of
            [] \<Rightarrow> Inr s
          | cs \<Rightarrow> Inl (map (\<lambda>c. (c, path)) cs))
     | _ \<Rightarrow> Inl [(invalid_type, path)])"

text \<open>\<^verbatim>\<open>z.number().min(lo).max(hi).optional()\<close>: a missing key is accepted.\<close>

definition zod_number_optional :: "string list \<Rightarrow> number \<Rightarrow> number \<Rightarrow> json option \<Rightarrow> issue list + number option" where
  "zod_number_optional path lo hi v =
    (case v of
       None \<Rightarrow> Inr None
     | Some (JNum n) \<Rightarrow>
         if n = NaN then Inl [(invalid_type, path)]
         else
           (case (if num_lt n lo then [too_small] else []) @ (if num_lt hi n then [too_big] else []) of
              [] \<Rightarrow> Inr (Some n)
            | cs \<Rightarrow> Inl (map (\<lambda>c. (c, path)) cs))
     | Some _ \<Rightarrow> Inl [(invalid_type, path)])"

definition issues_of :: "issue list + 'a \<Rightarrow> issue list" where
  "issues_of r = (case r of Inl is \<Rightarrow> is | Inr _ \<Rightarrow> [])"

text \<open>The stored record (\<^verbatim>\<open>type User\<close>) and the validated payload (\<^verbatim>\<open>type UserCreate\<close>).\<close>

record user =
  user_id :: number
  user_name :: string
  user_email :: string
  user_age :: "number option"

record user_create =
  uc_name :: string
  uc_email :: string
  uc_age :: "number option"

text \<open>
  \<^verbatim>\<open>UserCreateSchema.parse\<close>. The pattern behind \<^verbatim>\<open>z.string().email()\<close> belongs to the
  Zod package; it is the parameter \<open>is_email\<close>. Keys the schema does not name are
  dropped from the result, so a payload cannot carry an \<^verbatim>\<open>id\<close> into the record.
\<close>

definition UserCreateSchema_parse :: "(string \<Rightarrow> bool) \<Rightarrow> json \<Rightarrow> issue list + user_create" where
  "UserCreateSchema_parse is_email b =
    (case b of
       JObj kvs \<Rightarrow>
         (let n = zod_string [''name''] (len_checks 1 100) (map_of kvs ''name'');
              e = zod_string [''email''] (email_check is_email) (map_of kvs ''email'');
              a = zod_number_optional [''age''] (Fin 1) (Fin 150) (map_of kvs ''age'')
          in case (n, e, a) of
               (Inr n', Inr e', Inr a') \<Rightarrow> Inr \<lparr>uc_name = n', uc_email = e', uc_age = a'\<rparr>
             | _ \<Rightarrow> Inl (issues_of n @ issues_of e @ issues_of a))
     | _ \<Rightarrow> Inl [(invalid_type, [])])"

section \<open>Responses and the user handlers\<close>

text \<open>
  The payload of a session token as \<^verbatim>\<open>jwt.verify\<close> hands it back: the object signed at
  login (\<^verbatim>\<open>{ id, username }\<close>) with the issue and expiry times, in seconds, that the
  token library adds.
\<close>

datatype claims = Claims (claim_id: number) (claim_username: string) (claim_iat: nat) (claim_exp: nat)

datatype body =
    Error_body string
  | Validation_body "issue list"
  | User_body user
  | Users_body "user list"
  | Login_body string number string
  | Protected_body string claims
  | Root_body
  | Health_body
  | Empty_body

record response =
  status :: nat
  body :: body

definition json_error :: "nat \<Rightarrow> string \<Rightarrow> response" where
  "json_error code msg = \<lparr>status = code, body = Error_body msg\<rparr>"

definition validation_failed :: "issue list \<Rightarrow> response" where
  "validation_failed is = \<lparr>status = 400, body = Validation_body is\<rparr>"

text \<open>
  What a statement inside a \<^verbatim>\<open>try\<close> block of the handlers can throw, and the
  \<^verbatim>\<open>catch\<close> block that the create, update and login handlers share: a \<^verbatim>\<open>ZodError\<close>
  is answered with 400 and its issues, anything else with 500.
\<close>

datatype thrown = ZodError "issue list" | RangeError

definition catch_block :: "thrown \<Rightarrow> response" where
  "catch_block err =
    (case err of
       ZodError errs \<Rightarrow> validation_failed errs
     | RangeError \<Rightarrow> json_error 500 ''Internal server error'')"

text \<open>
  \<^verbatim>\<open>Math.max(...xs)\<close>: the spread passes every element as an argument, and a call with
  more arguments than the engine takes throws a \<^verbatim>\<open>RangeError\<close>. The engine's limit is
  a parameter.
\<close>

definition Math_max_spread :: "nat \<Rightarrow> number list \<Rightarrow> thrown + number" where
  "Math_max_spread limit xs = (if limit < length xs then Inl RangeError else Inr (Math_max xs))"

text \<open>The seed collection (\<^verbatim>\<open>let users: User[] = [...]\<close>).\<close>

definition users_init :: "user list" where
  "users_init =
    [\<lparr>user_id = Fin 1, user_name = ''Alice Johnson'', user_email = ''alice@example.com'',
      user_age = Some (Fin 30)\<rparr>,
     \<lparr>user_id = Fin 2, user_name = ''Bob Smith'', user_email = ''bob@example.com'',
      user_age = Some (Fin 25)\<rparr>]"

text \<open>\<^verbatim>\<open>{ id, ...userData }\<close>\<close>

definition make_user :: "number \<Rightarrow> user_create \<Rightarrow> user" where
  "make_user i d = \<lparr>user_id = i, user_name = uc_name d, user_email = uc_email d, user_age = uc_age d\<rparr>"

text \<open>\<^verbatim>\<open>app.get('/users')\<close>\<close>

definition get_users :: "user list \<Rightarrow> response" where
  "get_users users = \<lparr>status = 200, body = Users_body users\<rparr>"

text \<open>\<^verbatim>\<open>app.get('/users/:id')\<close>; the argument is \<^verbatim>\<open>req.params.id\<close>.\<close>

definition get_users_id :: "js_string \<Rightarrow> user list \<Rightarrow> response" where
  "get_users_id param users =
    (let i = parseInt param in
     case find (\<lambda>u. strict_eq (user_id u) i) users of
       None \<Rightarrow> json_error 404 ''User not found''
     | Some u \<Rightarrow> \<lparr>status = 200, body = User_body u\<rparr>)"

text \<open>
  \<^verbatim>\<open>app.post('/users')\<close>: the payload is parsed first; what the \<^verbatim>\<open>try\<close> block throws
  (a \<^verbatim>\<open>ZodError\<close> from the schema, a \<^verbatim>\<open>RangeError\<close> from the spread call) is caught
  before the array is touched. \<open>limit\<close> is the engine's argument limit.
\<close>

definition post_users :: "(string \<Rightarrow> bool) \<Rightarrow> nat \<Rightarrow> json \<Rightarrow> user list \<Rightarrow> response \<times> user list" where
  "post_users is_email limit b users =
    (case UserCreateSchema_parse is_email b of
       Inl is \<Rightarrow> (catch_block (ZodError is), users)
     | Inr userData \<Rightarrow>
         (case Math_max_spread limit (map user_id users) of
            Inl err \<Rightarrow> (catch_block err, users)
          | Inr m \<Rightarrow>
              (let newId = num_add m (Fin 1);
                   newUser = make_user newId userData
               in (\<lparr>status = 201, body = User_body newUser\<rparr>, users @ [newUser]))))"

text \<open>
  \<^verbatim>\<open>app.put('/users/:id')\<close>: only the schema can throw inside its \<^verbatim>\<open>try\<close> block.
\<close>

definition put_users_id :: "(string \<Rightarrow> bool) \<Rightarrow> js_string \<Rightarrow> json \<Rightarrow> user list \<Rightarrow> response \<times> user list" where
  "put_users_id is_email param b users =
    (let i = parseInt param in
     case UserCreateSchema_parse is_email b of
       Inl is \<Rightarrow> (catch_block (ZodError is), users)
     | Inr userData \<Rightarrow>
         (let userIndex = findIndex (\<lambda>u. strict_eq (user_id u) i) users in
          if userIndex = - 1 then (json_error 404 ''User not found'', users)
          else
            (let updatedUser = make_user i userData
             in (\<lparr>status = 200, body = User_body updatedUser\<rparr>,
                 users[nat userIndex := updatedUser]))))"

text \<open>\<^verbatim>\<open>app.delete('/users/:id')\<close>\<close>

definition delete_users_id :: "js_string \<Rightarrow> user list \<Rightarrow> response \<times> user list" where
  "delete_users_id param users =
    (let i = parseInt param;
         userIndex = findIndex (\<lambda>u. strict_eq (user_id u) i) users
     in if userIndex = - 1 then (json_error 404 ''User not found'', users)
        else (\<lparr>status = 204, body = Empty_body\<rparr>, splice1 (nat userIndex) users))"

section \<open>Library parameters\<close>

text \<open>
  The packages the example calls are not part of the repository. What the handlers need
  from them is collected here: the e-mail pattern of Zod, \<^verbatim>\<open>bcrypt.compare\<close>, the
  compact serialisation of a signed token under a secret (\<open>jwt_encode\<close>) and its
  inverse, which yields nothing for a malformed token or a signature that does not verify
  under the secret (\<open>jwt_decode\<close>), the value of \<^verbatim>\<open>JWT_SECRET\<close>, and the number of
  arguments the JavaScript engine takes in one call (\<open>arg_limit\<close>).
\<close>

record env =
  email_pattern :: "string \<Rightarrow> bool"
  bcrypt_compare :: "string \<Rightarrow> string \<Rightarrow> bool"
  jwt_encode :: "string \<Rightarrow> claims \<Rightarrow> string"
  jwt_decode :: "string \<Rightarrow> string \<Rightarrow> claims option"
  JWT_SECRET :: string
  arg_limit :: nat

section \<open>Session tokens\<close>

text \<open>
  Modelled from the spec: \<^verbatim>\<open>jwt.sign\<close> of the jsonwebtoken package, which is not under
  src/. The spec describes the token as an "opaque signed token encoding {subject id,
  username, expiry}; created at login, validated on each protected request". The clock is
  read in milliseconds; issue and expiry times are kept in the token in whole seconds.
\<close>

definition jwt_sign :: "env \<Rightarrow> number \<Rightarrow> string \<Rightarrow> string \<Rightarrow> nat \<Rightarrow> nat \<Rightarrow> string" where
  "jwt_sign e i username secret expiresIn now =
    jwt_encode e secret (Claims i username (now div 1000) (now div 1000 + expiresIn))"

datatype jwt_error = JsonWebTokenError | TokenExpiredError

text \<open>
  Modelled from the spec: \<^verbatim>\<open>jwt.verify\<close> of the jsonwebtoken package, which is not under
  src/. The spec says that validation "verifies its signature and expiry": a token that
  does not decode under the secret is refused, and so is a token whose expiry second has
  been reached.
\<close>

definition jwt_verify :: "env \<Rightarrow> string \<Rightarrow> string \<Rightarrow> nat \<Rightarrow> jwt_error + claims" where
  "jwt_verify e token secret now =
    (case jwt_decode e secret token of
       None \<Rightarrow> Inl JsonWebTokenError
     | Some c \<Rightarrow> if claim_exp c \<le> now div 1000 then Inl TokenExpiredError else Inr c)"

text \<open>\<^verbatim>\<open>expiresIn: '24h'\<close>, in seconds.\<close>

definition expires_24h :: nat where
  "expires_24h = 24 * 60 * 60"

section \<open>Login and the protected route\<close>

text \<open>\<^verbatim>\<open>AuthSchema.parse\<close>\<close>

definition AuthSchema_parse :: "json \<Rightarrow> issue list + string \<times> string" where
  "AuthSchema_parse b =
    (case b of
       JObj kvs \<Rightarrow>
         (let u = zod_string [''username''] (len_checks 3 50) (map_of kvs ''username'');
              p = zod_string [''password''] (len_checks 6 100) (map_of kvs ''password'')
          in case (u, p) of
               (Inr u', Inr p') \<Rightarrow> Inr (u', p')
             | _ \<Rightarrow> Inl (issues_of u @ issues_of p))
     | _ \<Rightarrow> Inl [(invalid_type, [])])"

record auth_user =
  au_id :: number
  au_username :: string
  au_password :: string

definition authUsers :: "auth_user list" where
  "authUsers =
    [\<lparr>au_id = Fin 1, au_username = ''admin'',
      au_password = ''$2a$10$8K1p/a0dURXAU7aHSzU.9OA2w2O3BqASDNr6vW5Ag6dHklhGIh6Ve''\<rparr>]"

text \<open>
  \<^verbatim>\<open>app.post('/auth/login')\<close>; \<open>now\<close> is the clock in milliseconds. Only the schema
  throws inside its \<^verbatim>\<open>try\<close> block: \<^verbatim>\<open>bcrypt.compare\<close> is given two strings and
  \<^verbatim>\<open>jwt.sign\<close> a plain object and a non-empty secret.
\<close>

definition post_auth_login :: "env \<Rightarrow> nat \<Rightarrow> json \<Rightarrow> response" where
  "post_auth_login e now b =
    (case AuthSchema_parse b of
       Inl is \<Rightarrow> catch_block (ZodError is)
     | Inr (username, password) \<Rightarrow>
         (case find (\<lambda>u. au_username u = username) authUsers of
            None \<Rightarrow> json_error 401 ''Invalid credentials''
          | Some u \<Rightarrow>
              if \<not> bcrypt_compare e password (au_password u)
              then json_error 401 ''Invalid credentials''
              else
                (let token = jwt_sign e (au_id u) (au_username u) (JWT_SECRET e) expires_24h now
                 in \<lparr>status = 200, body = Login_body token (au_id u) (au_username u)\<rparr>)))"

text \<open>\<^verbatim>\<open>s.split(' ')\<close>: the pieces between single spaces, empty pieces included.\<close>

fun split_space :: "string \<Rightarrow> string list" where
  "split_space [] = [Nil]"
| "split_space (c # cs) =
    (if c = CHR '' '' then [] # split_space cs
     else (case split_space cs of
             w # ws \<Rightarrow> (c # w) # ws
           | [] \<Rightarrow> [c # Nil]))"

text \<open>
  \<^verbatim>\<open>authHeader && authHeader.split(' ')[1]\<close>: \<open>None\<close> is \<^verbatim>\<open>undefined\<close>. A missing
  header gives \<^verbatim>\<open>undefined\<close>, an empty header gives the empty string, and otherwise the
  second piece of the header is taken, whatever the first piece is.
\<close>

definition header_token :: "string option \<Rightarrow> string option" where
  "header_token authHeader =
    (case authHeader of
       None \<Rightarrow> None
     | Some h \<Rightarrow>
         if h = [] then Some []
         else (case split_space h of
                 _ # t # _ \<Rightarrow> Some t
               | _ \<Rightarrow> None))"

text \<open>
  \<^verbatim>\<open>authenticateToken\<close>: either it answers itself (\<open>Inl\<close>), or it calls \<^verbatim>\<open>next()\<close>
  with the decoded payload in \<^verbatim>\<open>req.user\<close> (\<open>Inr\<close>). The test \<^verbatim>\<open>!token\<close> holds for
  \<^verbatim>\<open>undefined\<close> and for the empty string.
\<close>

definition authenticateToken :: "env \<Rightarrow> nat \<Rightarrow> string option \<Rightarrow> response + claims" where
  "authenticateToken e now authHeader =
    (case header_token authHeader of
       None \<Rightarrow> Inl (json_error 401 ''Access token required'')
     | Some token \<Rightarrow>
         if token = [] then Inl (json_error 401 ''Access token required'')
         else
           (case jwt_verify e token (JWT_SECRET e) now of
              Inl err \<Rightarrow> Inl (json_error 403 ''Invalid token'')
            | Inr u \<Rightarrow> Inr u))"

text \<open>\<^verbatim>\<open>app.get('/protected', authenticateToken, ...)\<close>\<close>

definition get_protected :: "env \<Rightarrow> nat \<Rightarrow> string option \<Rightarrow> response" where
  "get_protected e now authHeader =
    (case authenticateToken e now authHeader of
       Inl r \<Rightarrow> r
     | Inr u \<Rightarrow>
         \<lparr>status = 200,
          body = Protected_body (''Hello '' @ claim_username u @ '', this is a protected route!'') u\<rparr>)"

section \<open>Rate limiting\<close>

text \<open>
  The storage of \<^verbatim>\<open>RateLimiterMemory\<close>: a key's record holds the units consumed in the
  current window and the time, in milliseconds, at which that window ends. The source fixes
  \<^verbatim>\<open>points: 100\<close> and \<^verbatim>\<open>duration: 60\<close>.
\<close>

record rl_record =
  rl_value :: nat
  rl_expiresAt :: nat

type_synonym limiter = "string \<Rightarrow> rl_record option"

definition points :: nat where
  "points = 100"

definition duration :: nat where
  "duration = 60"

definition window_open :: "limiter \<Rightarrow> string \<Rightarrow> nat \<Rightarrow> bool" where
  "window_open rl key now = (case rl key of None \<Rightarrow> False | Some r \<Rightarrow> now < rl_expiresAt r)"

text \<open>
  Modelled from the spec: the counter update of \<^verbatim>\<open>RateLimiterMemory\<close> (package
  rate-limiter-flexible), which is not under src/. The spec describes a "per-client-key
  counter with a fixed capacity and refill window; created lazily on first request from a
  key" that "expires" with its window: inside an open window the counter grows, and a
  request outside an open window starts a new window with a new counter.
\<close>

definition incrby :: "limiter \<Rightarrow> string \<Rightarrow> nat \<Rightarrow> nat \<Rightarrow> nat \<times> limiter" where
  "incrby rl key now n =
    (case rl key of
       Some r \<Rightarrow>
         if now < rl_expiresAt r
         then (rl_value r + n, rl(key \<mapsto> r\<lparr>rl_value := rl_value r + n\<rparr>))
         else (n, rl(key \<mapsto> \<lparr>rl_value = n, rl_expiresAt = now + duration * 1000\<rparr>))
     | None \<Rightarrow> (n, rl(key \<mapsto> \<lparr>rl_value = n, rl_expiresAt = now + duration * 1000\<rparr>)))"

text \<open>
  Modelled from the spec: \<^verbatim>\<open>rateLimiter.consume(key)\<close> of the same package, "consuming one
  unit per request; when the bucket is empty, fails". The result is \<open>True\<close> when the
  promise resolves and \<open>False\<close> when it rejects, which is when more than \<^const>\<open>points\<close>
  units have been consumed in the window.
\<close>

definition consume :: "limiter \<Rightarrow> string \<Rightarrow> nat \<Rightarrow> bool \<times> limiter" where
  "consume rl key now =
    (let (consumedPoints, rl') = incrby rl key now 1
     in (consumedPoints \<le> points, rl'))"

section \<open>The request pipeline\<close>

text \<open>
  A request after body parsing: the client address, the matched route (with its
  \<^verbatim>\<open>:id\<close> parameter, percent-decoded), the \<^verbatim>\<open>Authorization\<close> header if any, and the
  parsed body. \<open>Undecodable_param\<close> stands for a path under \<^verbatim>\<open>/users/\<close> whose parameter
  is not a valid percent-encoding.
\<close>

datatype route =
    Get_root
  | Get_health
  | Post_auth_login
  | Get_users
  | Get_users_id js_string
  | Post_users
  | Put_users_id js_string
  | Delete_users_id js_string
  | Get_protected
  | Undecodable_param
  | No_route

record request =
  req_ip :: string
  req_route :: route
  req_authorization :: "string option"
  req_body :: json

text \<open>The process-wide state: the \<^verbatim>\<open>users\<close> array and the limiter's storage.\<close>

record app_state =
  st_users :: "user list"
  st_limiter :: limiter

definition app_init :: app_state where
  "app_init = \<lparr>st_users = users_init, st_limiter = Map.empty\<rparr>"

text \<open>
  The error-handling middleware (\<^verbatim>\<open>app.use((err, req, res, next) => ...)\<close>) answers every
  error passed on by a middleware or by the router with 500.
\<close>

definition error_middleware :: response where
  "error_middleware = json_error 500 ''Internal server error''"

text \<open>
  Route dispatch. A path whose \<^verbatim>\<open>:id\<close> part cannot be decoded makes the router pass an
  error to the error middleware; the last case is the \<^verbatim>\<open>app.use('*', ...)\<close> handler.
\<close>

definition dispatch :: "env \<Rightarrow> nat \<Rightarrow> request \<Rightarrow> user list \<Rightarrow> response \<times> user list" where
  "dispatch e now req users =
    (case req_route req of
       Get_root \<Rightarrow> (\<lparr>status = 200, body = Root_body\<rparr>, users)
     | Get_health \<Rightarrow> (\<lparr>status = 200, body = Health_body\<rparr>, users)
     | Post_auth_login \<Rightarrow> (post_auth_login e now (req_body req), users)
     | Get_users \<Rightarrow> (get_users users, users)
     | Get_users_id param \<Rightarrow> (get_users_id param users, users)
     | Post_users \<Rightarrow> post_users (email_pattern e) (arg_limit e) (req_body req) users
     | Put_users_id param \<Rightarrow> put_users_id (email_pattern e) param (req_body req) users
     | Delete_users_id param \<Rightarrow> delete_users_id param users
     | Get_protected \<Rightarrow> (get_protected e now (req_authorization req), users)
     | Undecodable_param \<Rightarrow> (error_middleware, users)
     | No_route \<Rightarrow> (json_error 404 ''Route not found'', users))"

text \<open>
  \<^verbatim>\<open>rateLimitMiddleware\<close> in front of the routes: a rejected \<^verbatim>\<open>consume\<close> is answered
  with 429 and \<^verbatim>\<open>next()\<close> is not called.
\<close>

definition handle :: "env \<Rightarrow> nat \<Rightarrow> request \<Rightarrow> app_state \<Rightarrow> response \<times> app_state" where
  "handle e now req st =
    (case consume (st_limiter st) (req_ip req) now of
       (False, rl') \<Rightarrow>
         (json_error 429 ''Rate limit exceeded'', st\<lparr>st_limiter := rl'\<rparr>)
     | (True, rl') \<Rightarrow>
         (let (r, users') = dispatch e now req (st_users st)
          in (r, \<lparr>st_users = users', st_limiter = rl'\<rparr>)))"

text \<open>A sequence of requests, each with the clock at its arrival, served one after the other.\<close>

fun serve :: "env \<Rightarrow> (nat \<times> request) list \<Rightarrow> app_state \<Rightarrow> response list \<times> app_state" where
  "serve e [] st = ([], st)"
| "serve e ((now, req) # evs) st =
    (let (r, st') = handle e now req st;
         (rs, st'') = serve e evs st'
     in (r # rs, st''))"

section \<open>Body parsing and the error middleware\<close>

text \<open>
  A request as it arrives: like a \<^typ>\<open>request\<close>, but with the body as the client sent it:
  none, a JSON text (given by the value it denotes), or something the parser cannot read
  (not JSON, or larger than the \<^verbatim>\<open>10mb\<close> limit).
\<close>

datatype payload = No_payload | Json_payload json | Unreadable_payload

record inbound =
  in_ip :: string
  in_route :: route
  in_authorization :: "string option"
  in_payload :: payload

text \<open>
  Modelled from the spec: \<^verbatim>\<open>express.json()\<close> of the Express package, which is not under
  src/. The spec says that body parsing "decodes the request body as structured data up to
  a fixed size ceiling" and fails "if the ceiling is exceeded or content is malformed".
  Without a body \<^verbatim>\<open>req.body\<close> is the empty object; a JSON text is accepted when it is an
  object or an array (the parser's strict mode, its default); otherwise the parser passes
  an error on (\<open>None\<close>).
\<close>

definition express_json :: "payload \<Rightarrow> json option" where
  "express_json p =
    (case p of
       No_payload \<Rightarrow> Some (JObj [])
     | Json_payload j \<Rightarrow>
         (case j of
            JObj kvs \<Rightarrow> Some j
          | JArr js \<Rightarrow> Some j
          | _ \<Rightarrow> None)
     | Unreadable_payload \<Rightarrow> None)"

text \<open>
  The application on an arriving request: \<^verbatim>\<open>express.json()\<close> is registered before the rate
  limiter, so a request whose body it refuses goes to the error middleware and reaches
  neither the limiter nor a route.
\<close>

definition receive :: "env \<Rightarrow> nat \<Rightarrow> inbound \<Rightarrow> app_state \<Rightarrow> response \<times> app_state" where
  "receive e now i st =
    (case express_json (in_payload i) of
       None \<Rightarrow> (error_middleware, st)
     | Some b \<Rightarrow>
         handle e now
           \<lparr>req_ip = in_ip i, req_route = in_route i,
            req_authorization = in_authorization i, req_body = b\<rparr> st)"

section \<open>Properties of stores, tokens and request sequences\<close>

text \<open>\<^verbatim>\<open>Number.isFinite\<close> and \<^verbatim>\<open>Number.isSafeInteger\<close>.\<close>

fun isFinite :: "number \<Rightarrow> bool" where
  "isFinite (Fin r) = True"
| "isFinite _ = False"

fun isSafeInteger :: "number \<Rightarrow> bool" where
  "isSafeInteger (Fin r) = (of_int \<lfloor>r\<rfloor> = r \<and> \<bar>r\<bar> \<le> 2 ^ 53 - 1)"
| "isSafeInteger _ = False"

text \<open>No finite id is held by two records of the collection.\<close>

definition finite_ids_distinct :: "user list \<Rightarrow> bool" where
  "finite_ids_distinct users = distinct (filter isFinite (map user_id users))"

text \<open>
  What the handlers rely on from the token codec: a token decodes, under the secret it was
  signed with, to the payload that was signed, and its compact form is a non-empty string
  without spaces.
\<close>

definition codec_sound :: "env \<Rightarrow> bool" where
  "codec_sound e =
    (\<forall>secret c.
       jwt_decode e secret (jwt_encode e secret c) = Some c
     \<and> jwt_encode e secret c \<noteq> []
     \<and> CHR '' '' \<notin> set (jwt_encode e secret c))"

text \<open>The arrival times of the requests of one client in a sequence of requests.\<close>

definition times_of :: "string \<Rightarrow> (nat \<times> request) list \<Rightarrow> nat list" where
  "times_of key evs = map fst (filter (\<lambda>ev. req_ip (snd ev) = key) evs)"

text \<open>The responses given to the requests of one client in a sequence of requests.\<close>

definition responses_to :: "string \<Rightarrow> (nat \<times> request) list \<Rightarrow> response list \<Rightarrow> response list" where
  "responses_to key evs rs = map snd (filter (\<lambda>p. req_ip (snd (fst p)) = key) (zip evs rs))"

section \<open>Concrete instances of the parameters\<close>

text \<open>
  To run the handlers on concrete requests the library parameters need values. The
  following ones are used for that purpose only; every general statement below holds for
  all values of the parameters. An address counts as an e-mail address here when it has a
  non-empty local part, exactly one \<^verbatim>\<open>@\<close>, and a dot after it.
\<close>

definition simple_email :: "string \<Rightarrow> bool" where
  "simple_email s =
    (let l = takeWhile (\<lambda>c. c \<noteq> CHR ''@'') s;
         r = dropWhile (\<lambda>c. c \<noteq> CHR ''@'') s
     in l \<noteq> [] \<and> r \<noteq> [] \<and> CHR ''.'' \<in> set (tl r) \<and> CHR ''@'' \<notin> set (tl r))"

text \<open>
  A token codec: the token of a payload under a secret is a run of \<^verbatim>\<open>x\<close> whose length
  numbers the pair of secret and payload, so that decoding under the same secret gives the
  payload back and decoding under another secret fails.
\<close>

instance number :: countable
  by countable_datatype

instance claims :: countable
  by countable_datatype

definition unary_token :: "string \<Rightarrow> claims \<Rightarrow> string" where
  "unary_token secret c = replicate (Suc (to_nat (secret, c))) (CHR ''x'')"

definition unary_claims :: "string \<Rightarrow> string \<Rightarrow> claims option" where
  "unary_claims secret t =
    (let sc = (from_nat (length t - 1) :: string \<times> claims)
     in if t = unary_token (fst sc) (snd sc) \<and> fst sc = secret then Some (snd sc) else None)"

text \<open>
  The source notes \<^verbatim>\<open>admin123\<close> as the password behind the stored hash. The argument
  limit is one that engines have.
\<close>

definition sample_env :: env where
  "sample_env =
    \<lparr>email_pattern = simple_email,
     bcrypt_compare = (\<lambda>password hash. password = ''admin123''),
     jwt_encode = unary_token,
     jwt_decode = unary_claims,
     JWT_SECRET = ''your-secret-key'',
     arg_limit = 65536\<rparr>"

text \<open>Two request bodies and a request skeleton.\<close>

definition bobby :: json where
  "bobby = JObj [(''name'', JStr ''Bobby''), (''email'', JStr ''bobby@example.com'')]"

definition eve :: json where
  "eve = JObj [(''name'', JStr ''Eve''), (''email'', JStr ''alice@example.com''),
               (''age'', JNum (Fin 41))]"

definition admin_login :: json where
  "admin_login = JObj [(''username'', JStr ''admin''), (''password'', JStr ''admin123'')]"

text \<open>The path parameter made of a minus sign and 309 nines.\<close>

definition minus_nines :: js_string where
  "minus_nines = 0x2D # replicate 309 0x39"

text \<open>\<^verbatim>\<open>req.body\<close> of a request without a body.\<close>

definition no_body :: json where
  "no_body = JObj []"

definition request_of :: "route \<Rightarrow> json \<Rightarrow> request" where
  "request_of r b =
    \<lparr>req_ip = ''10.0.0.1'', req_route = r, req_authorization = None, req_body = b\<rparr>"

text \<open>An arriving request of the same client.\<close>

definition inbound_of :: "route \<Rightarrow> payload \<Rightarrow> inbound" where
  "inbound_of r p =
    \<lparr>in_ip = ''10.0.0.1'', in_route = r, in_authorization = None, in_payload = p\<rparr>"

section \<open>Auxiliary facts\<close>

lemma findIndex_lower: "- 1 \<le> findIndex p xs"
  by (induction xs) (auto simp: Let_def)

lemma findIndex_none: "(findIndex p xs = - 1) = (\<forall>x\<in>set xs. \<not> p x)"
proof (induction xs)
  case Nil
  show ?case by simp
next
  case (Cons x xs)
  have "- 1 \<le> findIndex p xs" by (rule findIndex_lower)
  then have "findIndex p xs + 1 \<noteq> - 1" by arith
  with Cons show ?case by (auto simp: Let_def)
qed

lemma findIndex_found:
  "findIndex p xs \<noteq> - 1 \<Longrightarrow>
     0 \<le> findIndex p xs \<and> nat (findIndex p xs) < length xs \<and> p (xs ! nat (findIndex p xs))
     \<and> (\<forall>j < nat (findIndex p xs). \<not> p (xs ! j))"
proof (induction xs)
  case Nil
  then show ?case by simp
next
  case (Cons x xs)
  show ?case
  proof (cases "p x")
    case True
    then show ?thesis by simp
  next
    case False
    with Cons.prems have ne: "findIndex p xs \<noteq> - 1" by (auto simp: Let_def split: if_splits)
    from Cons.IH [OF ne] have ih: "0 \<le> findIndex p xs" "nat (findIndex p xs) < length xs"
      "p (xs ! nat (findIndex p xs))" "\<forall>j < nat (findIndex p xs). \<not> p (xs ! j)" by auto
    have eq: "findIndex p (x # xs) = findIndex p xs + 1" using False ne by (simp add: Let_def)
    have n: "nat (findIndex p xs + 1) = Suc (nat (findIndex p xs))" using ih(1) by arith
    show ?thesis unfolding eq n using ih False
      by (auto simp: nth_Cons split: nat.splits)
  qed
qed

lemma find_NaN: "find (\<lambda>u. strict_eq (user_id u) NaN) us = None"
  by (induction us) (auto simp: strict_eq_def)

lemma findIndex_NaN: "findIndex (\<lambda>u. strict_eq (user_id u) NaN) us = - 1"
  by (simp add: findIndex_none strict_eq_def)

lemmas parseInt_eval =
  parseInt_def strip_sign_def strip_radix_def is_ws_def digit_in_def to_double_def
  code_units_def Let_def

lemmas schema_eval =
  UserCreateSchema_parse_def AuthSchema_parse_def zod_string_def zod_number_optional_def
  len_checks_def email_check_def simple_email_def issues_of_def

lemma bobby_valid:
  "UserCreateSchema_parse simple_email bobby =
     Inr \<lparr>uc_name = ''Bobby'', uc_email = ''bobby@example.com'', uc_age = None\<rparr>"
  by (simp add: schema_eval bobby_def)

lemma eve_valid:
  "UserCreateSchema_parse simple_email eve =
     Inr \<lparr>uc_name = ''Eve'', uc_email = ''alice@example.com'', uc_age = Some (Fin 41)\<rparr>"
  by (simp add: schema_eval eve_def)

lemma parseInt_2: "parseInt (code_units ''2'') = Fin 2"
  by (simp add: parseInt_eval)

lemma parseInt_3: "parseInt (code_units ''3'') = Fin 3"
  by (simp add: parseInt_eval)

lemma parseInt_abc: "parseInt (code_units ''abc'') = NaN"
  by (simp add: parseInt_eval)

text \<open>The maximum of finite numbers.\<close>

lemma foldl_max2_Fin: "foldl max2 (Fin a) (map Fin rs) = Fin (fold max rs a)"
  by (induction rs arbitrary: a) (auto simp: max_def)

lemma fold_max_Max: "fold max rs (a::rat) = Max (insert a (set rs))"
  by (simp add: Max.set_eq_fold [symmetric])

lemma Math_max_Fin: "rs \<noteq> [] \<Longrightarrow> Math_max (map Fin rs) = Fin (Max (set rs))"
proof (cases rs)
  case Nil
  then show "rs \<noteq> [] \<Longrightarrow> ?thesis" by simp
next
  case (Cons r rs')
  have "Math_max (map Fin rs) = foldl max2 (Fin r) (map Fin rs')"
    by (simp add: Math_max_def Cons)
  also have "\<dots> = Fin (Max (insert r (set rs')))"
    by (simp add: foldl_max2_Fin fold_max_Max)
  finally show ?thesis by (simp add: Cons)
qed

lemma safe_ids_are_Fin:
  "\<forall>u\<in>set users. isSafeInteger (user_id u) \<Longrightarrow> \<exists>rs. map user_id users = map Fin rs"
proof (induction users)
  case Nil
  show ?case by simp
next
  case (Cons u users)
  then obtain rs where rs: "map user_id users = map Fin rs" by auto
  from Cons.prems obtain r where "user_id u = Fin r" by (cases "user_id u") auto
  with rs have "map user_id (u # users) = map Fin (r # rs)" by simp
  then show ?case by blast
qed

lemmas pipeline_eval =
  serve.simps handle_def consume_def incrby_def points_def duration_def dispatch_def
  request_of_def app_init_def sample_env_def users_init_def Let_def

lemmas users_eval =
  post_users_def put_users_id_def delete_users_id_def get_users_id_def get_users_def
  Math_max_spread_def catch_block_def Math_max_def make_user_def strict_eq_def splice1_def
  json_error_def validation_failed_def

text \<open>
  What a finite maximum says about its arguments.
\<close>

lemma foldl_max2_NaN: "foldl max2 NaN xs = NaN"
  by (induction xs) auto

lemma foldl_max2_PInf: "foldl max2 PInf xs \<noteq> Fin m"
proof (induction xs)
  case Nil
  show ?case by simp
next
  case (Cons x xs)
  then show ?case by (cases x) (auto simp: foldl_max2_NaN)
qed

lemma foldl_max2_bound:
  "foldl max2 acc xs = Fin m \<Longrightarrow>
     (\<forall>a. acc = Fin a \<longrightarrow> a \<le> m) \<and> (\<forall>r. Fin r \<in> set xs \<longrightarrow> r \<le> m)"
proof (induction xs arbitrary: acc)
  case Nil
  then show ?case by simp
next
  case (Cons x xs)
  from Cons.prems have f: "foldl max2 (max2 acc x) xs = Fin m" by simp
  note ih = Cons.IH [OF f]
  show ?case
  proof (cases acc)
    case (Fin a)
    show ?thesis
    proof (cases x)
      case (Fin b)
      with \<open>acc = Fin a\<close> ih show ?thesis by (auto split: if_splits)
    next
      case PInf
      with \<open>acc = Fin a\<close> f show ?thesis by (simp add: foldl_max2_PInf)
    next
      case NInf
      with \<open>acc = Fin a\<close> ih show ?thesis by auto
    next
      case NaN
      with \<open>acc = Fin a\<close> f show ?thesis by (simp add: foldl_max2_NaN)
    qed
  next
    case PInf
    with f show ?thesis by (cases x) (auto simp: foldl_max2_PInf foldl_max2_NaN)
  next
    case NInf
    show ?thesis
    proof (cases x)
      case (Fin b)
      with \<open>acc = NInf\<close> ih show ?thesis by auto
    next
      case PInf
      with \<open>acc = NInf\<close> f show ?thesis by (simp add: foldl_max2_PInf)
    next
      case NInf
      with \<open>acc = NInf\<close> ih show ?thesis by auto
    next
      case NaN
      with \<open>acc = NInf\<close> f show ?thesis by (simp add: foldl_max2_NaN)
    qed
  next
    case NaN
    with f show ?thesis by (simp add: foldl_max2_NaN)
  qed
qed

lemma num_add_one_Fin: "num_add n (Fin 1) = Fin r \<Longrightarrow> n = Fin (r - 1)"
  by (cases n) auto

lemma new_id_fresh:
  assumes "isFinite (num_add (Math_max ids) (Fin 1))"
  shows "num_add (Math_max ids) (Fin 1) \<notin> set ids"
proof -
  from assms obtain r where r: "num_add (Math_max ids) (Fin 1) = Fin r"
    by (cases "num_add (Math_max ids) (Fin 1)") auto
  then have "Math_max ids = Fin (r - 1)" by (rule num_add_one_Fin)
  then have "foldl max2 NInf ids = Fin (r - 1)" by (simp add: Math_max_def)
  from foldl_max2_bound [OF this] have "\<forall>x. Fin x \<in> set ids \<longrightarrow> x \<le> r - 1" by blast
  then have "Fin r \<notin> set ids" by auto
  with r show ?thesis by simp
qed

text \<open>
  No handler makes two records share a finite id: the property holds in every state the
  application reaches from its seed collection.
\<close>

lemma post_users_keeps_distinct:
  "finite_ids_distinct users \<Longrightarrow>
     finite_ids_distinct (snd (post_users is_email limit b users))"
proof (cases "UserCreateSchema_parse is_email b")
  case (Inl errs)
  assume "finite_ids_distinct users"
  with Inl show ?thesis by (simp add: post_users_def)
next
  case (Inr d)
  assume inv: "finite_ids_distinct users"
  show ?thesis
  proof (cases "limit < length users")
    case True
    with Inr inv show ?thesis by (simp add: post_users_def Math_max_spread_def)
  next
    case False
    let ?n = "num_add (Math_max (map user_id users)) (Fin 1)"
    have ids: "map user_id (snd (post_users is_email limit b users)) = map user_id users @ [?n]"
      using Inr False by (simp add: post_users_def Math_max_spread_def Let_def make_user_def)
    have "distinct (filter isFinite (map user_id users @ [?n]))"
      using inv new_id_fresh [of "map user_id users"]
      by (simp add: finite_ids_distinct_def)
    with ids show ?thesis by (simp add: finite_ids_distinct_def)
  qed
qed

lemma put_users_id_keeps_ids:
  "map user_id (snd (put_users_id is_email param b users)) = map user_id users"
proof (cases "UserCreateSchema_parse is_email b")
  case (Inl errs)
  then show ?thesis by (simp add: put_users_id_def)
next
  case (Inr d)
  let ?p = "\<lambda>u. strict_eq (user_id u) (parseInt param)"
  show ?thesis
  proof (cases "findIndex ?p users = - 1")
    case True
    with Inr show ?thesis by (simp add: put_users_id_def)
  next
    case False
    note f = findIndex_found [OF False]
    from f have "strict_eq (user_id (users ! nat (findIndex ?p users))) (parseInt param)"
      by blast
    then have same: "user_id (users ! nat (findIndex ?p users)) = parseInt param"
      unfolding strict_eq_def by blast
    have "map user_id (users[nat (findIndex ?p users) := make_user (parseInt param) d]) =
        (map user_id users)[nat (findIndex ?p users) := parseInt param]"
      by (simp add: map_update make_user_def)
    also have "\<dots> = map user_id users"
      using f same by (metis list_update_id nth_map)
    finally show ?thesis using Inr False by (simp add: put_users_id_def Let_def)
  qed
qed

lemma splice1_keeps_distinct: "distinct (filter p xs) \<Longrightarrow> distinct (filter p (splice1 k xs))"
proof (cases "k < length xs")
  case True
  assume d: "distinct (filter p xs)"
  have "xs = take k xs @ xs ! k # drop (Suc k) xs" using True by (rule id_take_nth_drop)
  then have "filter p xs = filter p (take k xs) @ filter p [xs ! k] @ filter p (drop (Suc k) xs)"
    by (metis append_Cons append_Nil filter_append)
  with d have "distinct (filter p (take k xs) @ filter p [xs ! k] @ filter p (drop (Suc k) xs))"
    by simp
  then show ?thesis by (auto simp: splice1_def)
next
  case False
  assume "distinct (filter p xs)"
  with False show ?thesis by (simp add: splice1_def)
qed

lemma delete_users_id_keeps_distinct:
  "finite_ids_distinct users \<Longrightarrow> finite_ids_distinct (snd (delete_users_id param users))"
proof -
  assume inv: "finite_ids_distinct users"
  have m: "map user_id (splice1 k users) = splice1 k (map user_id users)" for k
    by (simp add: splice1_def take_map drop_map)
  have "finite_ids_distinct (splice1 k users)" for k
    using inv splice1_keeps_distinct [of isFinite "map user_id users" k]
    by (simp add: finite_ids_distinct_def m)
  with inv show ?thesis by (simp add: delete_users_id_def Let_def)
qed

lemma dispatch_keeps_distinct:
  "finite_ids_distinct users \<Longrightarrow> finite_ids_distinct (snd (dispatch e now req users))"
proof (cases "req_route req")
  case (Put_users_id param)
  assume "finite_ids_distinct users"
  then show ?thesis
    by (simp add: dispatch_def Put_users_id finite_ids_distinct_def put_users_id_keeps_ids)
qed (simp_all add: dispatch_def post_users_keeps_distinct delete_users_id_keeps_distinct)

lemma handle_rejected:
  "\<not> fst (consume (st_limiter st) (req_ip req) now) \<Longrightarrow>
     handle e now req st =
       (json_error 429 ''Rate limit exceeded'',
        st\<lparr>st_limiter := snd (consume (st_limiter st) (req_ip req) now)\<rparr>)"
  by (cases "consume (st_limiter st) (req_ip req) now") (simp add: handle_def)

lemma handle_admitted:
  "fst (consume (st_limiter st) (req_ip req) now) \<Longrightarrow>
     handle e now req st =
       (fst (dispatch e now req (st_users st)),
        \<lparr>st_users = snd (dispatch e now req (st_users st)),
         st_limiter = snd (consume (st_limiter st) (req_ip req) now)\<rparr>)"
  by (cases "consume (st_limiter st) (req_ip req) now") (simp add: handle_def case_prod_unfold Let_def)

lemma handle_keeps_distinct:
  "finite_ids_distinct (st_users st) \<Longrightarrow>
     finite_ids_distinct (st_users (snd (handle e now req st)))"
  using dispatch_keeps_distinct [of "st_users st" e now req]
  by (auto simp: handle_def split: prod.splits bool.splits)

lemma serve_Cons:
  "serve e ((now, req) # evs) st =
     (fst (handle e now req st) # fst (serve e evs (snd (handle e now req st))),
      snd (serve e evs (snd (handle e now req st))))"
  by (simp add: case_prod_unfold Let_def)

lemma serve_keeps_distinct:
  "finite_ids_distinct (st_users st) \<Longrightarrow>
     finite_ids_distinct (st_users (snd (serve e evs st)))"
proof (induction evs arbitrary: st)
  case Nil
  then show ?case by simp
next
  case (Cons ev evs)
  obtain now req where ev: "ev = (now, req)" by (cases ev)
  from Cons.prems have "finite_ids_distinct (st_users (snd (handle e now req st)))"
    by (rule handle_keeps_distinct)
  from Cons.IH [OF this] show ?case
    by (simp only: ev serve_Cons snd_conv)
qed

lemma users_init_distinct: "finite_ids_distinct users_init"
  by (simp add: finite_ids_distinct_def users_init_def)

lemma to_double_cases: "to_double z = PInf \<or> to_double z = NInf \<or> (\<exists>r. to_double z = Fin r)"
  unfolding to_double_def Let_def
  by (cases "nat \<bar>z\<bar> < 2 ^ 53"; cases "(2::nat) ^ 1024 - 2 ^ 970 \<le> nat \<bar>z\<bar>"; cases "z < 0";
      simp only: if_True if_False; blast)

lemma parseInt_cases:
  "parseInt s = NaN \<or> parseInt s = PInf \<or> parseInt s = NInf \<or> (\<exists>r. parseInt s = Fin r)"
proof -
  obtain neg s2 where a: "strip_sign (dropWhile is_ws s) = (neg, s2)" by (cases "strip_sign (dropWhile is_ws s)")
  obtain radix s3 where b: "strip_radix s2 = (radix, s3)" by (cases "strip_radix s2")
  show ?thesis
  proof (cases "digits_prefix radix s3 = []")
    case True
    then show ?thesis by (simp add: parseInt_def a b)
  next
    case False
    then have "\<exists>z. parseInt s = to_double z" by (auto simp: parseInt_def a b Let_def)
    then obtain z where "parseInt s = to_double z" ..
    with to_double_cases [of z] show ?thesis by auto
  qed
qed

lemma splice1_drops_unique:
  assumes d: "distinct (filter p (map f xs))" and k: "k < length xs" and pk: "p (f (xs ! k))"
    and y: "y \<in> set (splice1 k xs)"
  shows "f y \<noteq> f (xs ! k)"
proof
  assume eq: "f y = f (xs ! k)"
  have "xs = take k xs @ xs ! k # drop (Suc k) xs" using k by (rule id_take_nth_drop)
  then have "map f xs = map f (take k xs) @ f (xs ! k) # map f (drop (Suc k) xs)"
    by (metis list.simps(9) map_append)
  then have "filter p (map f xs) =
      filter p (map f (take k xs)) @ f (xs ! k) # filter p (map f (drop (Suc k) xs))"
    using pk by simp
  with d have "f (xs ! k) \<notin> set (filter p (map f (take k xs)))
      \<and> f (xs ! k) \<notin> set (filter p (map f (drop (Suc k) xs)))"
    by (metis distinct.simps(2) distinct_append disjoint_iff list.set_intros(1))
  moreover from y have "f y \<in> set (map f (take k xs)) \<or> f y \<in> set (map f (drop (Suc k) xs))"
    by (auto simp: splice1_def)
  ultimately show False using eq pk by auto
qed

text \<open>
  A route that answers with a status of 400 or more has not touched the collection.
\<close>

lemma dispatch_failure_keeps_users:
  "400 \<le> status (fst (dispatch e now req users)) \<Longrightarrow>
     snd (dispatch e now req users) = users"
  by (cases "req_route req")
    (auto simp: dispatch_def post_users_def put_users_id_def delete_users_id_def Let_def
      Math_max_spread_def catch_block_def split: sum.splits if_splits)

text \<open>
  The token codec of the concrete instance: decoding gives back what was encoded.
\<close>

lemma unary_roundtrip: "unary_claims s (unary_token s c) = Some c"
  by (simp add: unary_claims_def unary_token_def)

lemma sample_codec_sound: "codec_sound sample_env"
  by (simp add: codec_sound_def sample_env_def unary_roundtrip) (simp add: unary_token_def)

lemma garbage_not_a_token: "unary_claims s ''garbage'' = None"
  by (simp add: unary_claims_def unary_token_def Let_def)

text \<open>
  Splitting a header made of a scheme word, one space, and a token without spaces.
\<close>

lemma split_space_no_space: "CHR '' '' \<notin> set s \<Longrightarrow> split_space s = [s]"
  by (induction s) auto

lemma split_space_append:
  "CHR '' '' \<notin> set a \<Longrightarrow> split_space (a @ CHR '' '' # s) = a # split_space s"
  by (induction a) auto

lemma header_token_Bearer:
  "CHR '' '' \<notin> set t \<Longrightarrow> header_token (Some (''Bearer '' @ t)) = Some t"
  using split_space_append [of "''Bearer''" t]
  by (simp add: header_token_def split_space_no_space)

text \<open>
  A login answered with 200 carries the token signed for an account of \<^const>\<open>authUsers\<close>
  at the time of the request, with a life of 24 hours.
\<close>

lemma post_auth_login_ok:
  assumes "status (post_auth_login e t0 b) = 200"
  shows "\<exists>u. u \<in> set authUsers
        \<and> post_auth_login e t0 b =
            \<lparr>status = 200,
             body = Login_body
               (jwt_encode e (JWT_SECRET e)
                  (Claims (au_id u) (au_username u) (t0 div 1000) (t0 div 1000 + expires_24h)))
               (au_id u) (au_username u)\<rparr>"
  using assms
  by (auto simp: post_auth_login_def catch_block_def validation_failed_def json_error_def
      jwt_sign_def Let_def authUsers_def split: sum.splits prod.splits option.splits if_splits)

lemma admin_login_ok: "status (post_auth_login sample_env 5000 admin_login) = 200"
  by (simp add: post_auth_login_def schema_eval admin_login_def authUsers_def sample_env_def
      Let_def)

text \<open>
  No route answers 429; that status comes from the rate limiter only.
\<close>

lemma dispatch_not_429: "status (fst (dispatch e now req users)) \<noteq> 429"
  by (cases "req_route req")
    (auto simp: dispatch_def post_users_def put_users_id_def delete_users_id_def get_users_def
      get_users_id_def get_protected_def authenticateToken_def post_auth_login_def
      Math_max_spread_def catch_block_def json_error_def validation_failed_def
      error_middleware_def Let_def
      split: sum.splits if_splits option.splits prod.splits)

text \<open>
  The limiter keeps one record per key: a request of another client does not touch it.
\<close>

lemma consume_other_key:
  "key' \<noteq> key \<Longrightarrow> snd (consume rl key' now) key = rl key"
  by (simp add: consume_def incrby_def split: option.splits)

lemma handle_other_key:
  "req_ip req \<noteq> key \<Longrightarrow> st_limiter (snd (handle e now req st)) key = st_limiter st key"
  by (cases "fst (consume (st_limiter st) (req_ip req) now)")
    (simp_all add: handle_admitted handle_rejected consume_other_key)

lemma consume_in_window:
  "rl key = Some r \<Longrightarrow> now < rl_expiresAt r \<Longrightarrow>
     consume rl key now = (rl_value r + 1 \<le> points, rl(key \<mapsto> r\<lparr>rl_value := rl_value r + 1\<rparr>))"
  by (simp add: consume_def incrby_def)

lemma consume_new_window:
  "\<not> window_open rl key now \<Longrightarrow>
     consume rl key now =
       (True, rl(key \<mapsto> \<lparr>rl_value = 1, rl_expiresAt = now + 60000\<rparr>))"
  by (auto simp: consume_def incrby_def window_open_def points_def duration_def
      split: option.splits)

lemma times_of_Cons:
  "times_of key ((now, req) # evs) =
     (if req_ip req = key then now # times_of key evs else times_of key evs)"
  by (simp add: times_of_def)

lemma responses_to_Cons:
  "responses_to key ((now, req) # evs) (r # rs) =
     (if req_ip req = key then r # responses_to key evs rs else responses_to key evs rs)"
  by (simp add: responses_to_def)

text \<open>
  Inside an open window every request of the client is admitted as long as the counter
  stays within the capacity, whatever requests of other clients arrive in between.
\<close>

lemma serve_in_window:
  assumes "st_limiter st key = Some r"
    and "\<forall>t\<in>set (times_of key evs). t < rl_expiresAt r"
    and "rl_value r + length (times_of key evs) \<le> 100"
  shows "(\<forall>x\<in>set (responses_to key evs (fst (serve e evs st))). status x \<noteq> 429)
       \<and> st_limiter (snd (serve e evs st)) key =
           Some (r\<lparr>rl_value := rl_value r + length (times_of key evs)\<rparr>)"
  using assms
proof (induction evs arbitrary: st r)
  case Nil
  then show ?case by (simp add: times_of_def responses_to_def)
next
  case (Cons ev evs)
  obtain now req where ev: "ev = (now, req)" by (cases ev)
  let ?st' = "snd (handle e now req st)"
  show ?case
  proof (cases "req_ip req = key")
    case False
    then have lim: "st_limiter ?st' key = Some r"
      using Cons.prems(1) by (simp add: handle_other_key)
    from Cons.prems False have
      "\<forall>t\<in>set (times_of key evs). t < rl_expiresAt r"
      "rl_value r + length (times_of key evs) \<le> 100"
      by (simp_all add: ev times_of_Cons)
    from Cons.IH [OF lim this] show ?thesis
      using False by (simp add: ev serve_Cons times_of_Cons responses_to_Cons del: serve.simps)
  next
    case True
    from Cons.prems True have now: "now < rl_expiresAt r"
      and rest: "\<forall>t\<in>set (times_of key evs). t < rl_expiresAt r"
      and cnt: "rl_value r + 1 + length (times_of key evs) \<le> 100"
      by (simp_all add: ev times_of_Cons)
    let ?r' = "r\<lparr>rl_value := rl_value r + 1\<rparr>"
    have con: "consume (st_limiter st) (req_ip req) now =
        (True, (st_limiter st)(key \<mapsto> ?r'))"
      using consume_in_window [of "st_limiter st" key r now] Cons.prems(1) now cnt True
      by (simp add: points_def)
    then have adm: "fst (consume (st_limiter st) (req_ip req) now)" by simp
    have h: "handle e now req st =
        (fst (dispatch e now req (st_users st)),
         \<lparr>st_users = snd (dispatch e now req (st_users st)),
          st_limiter = (st_limiter st)(key \<mapsto> ?r')\<rparr>)"
      using handle_admitted [OF adm, of e] con by simp
    then have lim: "st_limiter ?st' key = Some ?r'" by simp
    have ok: "status (fst (handle e now req st)) \<noteq> 429"
      using h dispatch_not_429 by simp
    from rest have rest': "\<forall>t\<in>set (times_of key evs). t < rl_expiresAt ?r'" by simp
    from cnt have cnt': "rl_value ?r' + length (times_of key evs) \<le> 100" by simp
    from Cons.IH [OF lim rest' cnt'] ok show ?thesis
      using True by (simp add: ev serve_Cons times_of_Cons responses_to_Cons del: serve.simps)
  qed
qed

lemma serve_new_window:
  assumes "\<not> window_open (st_limiter st) key t0"
    and "times_of key evs = t0 # ts"
    and "length ts \<le> 99"
    and "\<forall>t\<in>set ts. t < t0 + 60000"
  shows "(\<forall>x\<in>set (responses_to key evs (fst (serve e evs st))). status x \<noteq> 429)
       \<and> st_limiter (snd (serve e evs st)) key =
           Some \<lparr>rl_value = 1 + length ts, rl_expiresAt = t0 + 60000\<rparr>"
  using assms
proof (induction evs arbitrary: st)
  case Nil
  then show ?case by (simp add: times_of_def)
next
  case (Cons ev evs)
  obtain now req where ev: "ev = (now, req)" by (cases ev)
  let ?st' = "snd (handle e now req st)"
  show ?case
  proof (cases "req_ip req = key")
    case False
    then have "st_limiter ?st' key = st_limiter st key" by (rule handle_other_key)
    then have closed: "\<not> window_open (st_limiter ?st') key t0"
      using Cons.prems(1) by (simp add: window_open_def)
    from Cons.prems(2) False have t: "times_of key evs = t0 # ts"
      by (simp add: ev times_of_Cons)
    from Cons.IH [OF closed t Cons.prems(3) Cons.prems(4)] show ?thesis
      using False by (simp add: ev serve_Cons times_of_Cons responses_to_Cons del: serve.simps)
  next
    case True
    from Cons.prems(2) True have now: "now = t0" and t: "times_of key evs = ts"
      by (simp_all add: ev times_of_Cons)
    let ?r = "\<lparr>rl_value = 1, rl_expiresAt = t0 + 60000\<rparr>"
    have con: "consume (st_limiter st) (req_ip req) now =
        (True, (st_limiter st)(key \<mapsto> ?r))"
      using consume_new_window [of "st_limiter st" key t0] Cons.prems(1) True now by simp
    then have adm: "fst (consume (st_limiter st) (req_ip req) now)" by simp
    have h: "handle e now req st =
        (fst (dispatch e now req (st_users st)),
         \<lparr>st_users = snd (dispatch e now req (st_users st)),
          st_limiter = (st_limiter st)(key \<mapsto> ?r)\<rparr>)"
      using handle_admitted [OF adm, of e] con by simp
    then have lim: "st_limiter ?st' key = Some ?r" by simp
    have ok: "status (fst (handle e now req st)) \<noteq> 429"
      using h dispatch_not_429 by simp
    have rest: "\<forall>t\<in>set (times_of key evs). t < rl_expiresAt ?r"
      using Cons.prems(4) t by simp
    have cnt: "rl_value ?r + length (times_of key evs) \<le> 100"
      using Cons.prems(3) t by simp
    from serve_in_window [OF lim rest cnt, of e] ok show ?thesis
      using True t by (simp add: ev serve_Cons times_of_Cons responses_to_Cons del: serve.simps)
  qed
qed

lemma length_serve: "length (fst (serve e evs st)) = length evs"
proof (induction evs arbitrary: st)
  case Nil
  show ?case by simp
next
  case (Cons ev evs)
  obtain now req where ev: "ev = (now, req)" by (cases ev)
  from Cons.IH show ?case by (simp add: ev serve_Cons del: serve.simps)
qed

lemma length_responses_to:
  "length rs = length evs \<Longrightarrow> length (responses_to key evs rs) = length (times_of key evs)"
proof (induction evs arbitrary: rs)
  case Nil
  then show ?case by (simp add: responses_to_def times_of_def)
next
  case (Cons ev evs)
  obtain now req where ev: "ev = (now, req)" by (cases ev)
  from Cons.prems obtain r rs' where rs: "rs = r # rs'" "length rs' = length evs"
    by (cases rs) auto
  from Cons.IH [OF rs(2)] show ?case
    by (simp add: ev rs(1) responses_to_Cons times_of_Cons)
qed

lemma times_of_replicate:
  "req_ip req = key \<Longrightarrow> times_of key (replicate n (t, req)) = replicate n t"
  by (induction n) (simp_all add: times_of_def)

lemma times_of_replicate_100:
  assumes "req_ip req = key"
  shows "times_of key (replicate 100 (t, req)) = t # replicate 99 t"
proof -
  have "replicate 100 (t, req) = replicate (Suc 99) (t, req)" by simp
  then have "times_of key (replicate 100 (t, req)) = replicate (Suc 99) t"
    using times_of_replicate [OF assms, of "Suc 99" t] by (simp only:)
  then show ?thesis by (simp only: replicate_Suc)
qed

text \<open>
  \<^verbatim>\<open>Math.max\<close> in general: NaN as soon as an argument is NaN, and otherwise an argument
  that no argument exceeds.
\<close>

lemma max2_cases:
  "a \<noteq> NaN \<Longrightarrow> b \<noteq> NaN \<Longrightarrow>
     (max2 a b = a \<or> max2 a b = b) \<and> max2 a b \<noteq> NaN
     \<and> \<not> num_lt (max2 a b) a \<and> \<not> num_lt (max2 a b) b"
  by (cases a; cases b) auto

lemma num_lt_trans_not:
  "a \<noteq> NaN \<Longrightarrow> b \<noteq> NaN \<Longrightarrow> c \<noteq> NaN \<Longrightarrow>
     \<not> num_lt a b \<Longrightarrow> \<not> num_lt b c \<Longrightarrow> \<not> num_lt a c"
  by (cases a; cases b; cases c) auto

lemma foldl_max2_greatest:
  "acc \<noteq> NaN \<Longrightarrow> NaN \<notin> set xs \<Longrightarrow>
     foldl max2 acc xs \<in> insert acc (set xs) \<and> foldl max2 acc xs \<noteq> NaN
     \<and> \<not> num_lt (foldl max2 acc xs) acc
     \<and> (\<forall>x\<in>set xs. \<not> num_lt (foldl max2 acc xs) x)"
proof (induction xs arbitrary: acc)
  case Nil
  then show ?case by (cases acc) auto
next
  case (Cons x xs)
  from Cons.prems have x: "x \<noteq> NaN" and xs: "NaN \<notin> set xs" by auto
  note m = max2_cases [OF Cons.prems(1) x]
  from m have m1: "max2 acc x \<noteq> NaN" by blast
  note ih = Cons.IH [OF m1 xs]
  let ?r = "foldl max2 (max2 acc x) xs"
  from ih have r: "?r \<noteq> NaN" and ge: "\<not> num_lt ?r (max2 acc x)" by blast+
  have a: "\<not> num_lt ?r acc"
    using num_lt_trans_not [OF r m1 Cons.prems(1) ge] m by blast
  have b: "\<not> num_lt ?r x"
    using num_lt_trans_not [OF r m1 x ge] m by blast
  from ih m have mem: "?r \<in> insert acc (set (x # xs))" by auto
  from ih a b r mem show ?case by simp
qed

lemma foldl_max2_has_NaN: "NaN \<in> set xs \<Longrightarrow> foldl max2 acc xs = NaN"
proof (induction xs arbitrary: acc)
  case Nil
  then show ?case by simp
next
  case (Cons x xs)
  show ?case
  proof (cases "x = NaN")
    case True
    then have "max2 acc x = NaN" by (cases acc) auto
    then show ?thesis by (simp add: foldl_max2_NaN)
  next
    case False
    with Cons show ?thesis by simp
  qed
qed

lemma Math_max_has_NaN: "NaN \<in> set xs \<Longrightarrow> Math_max xs = NaN"
  by (simp add: Math_max_def foldl_max2_has_NaN)

lemma Math_max_greatest:
  assumes "xs \<noteq> []" and "NaN \<notin> set xs"
  shows "Math_max xs \<in> set xs \<and> (\<forall>x\<in>set xs. \<not> num_lt (Math_max xs) x)"
proof -
  have n: "NInf \<noteq> NaN" by simp
  note f = foldl_max2_greatest [OF n assms(2)]
  have "foldl max2 NInf xs \<in> set xs"
  proof (cases "foldl max2 NInf xs = NInf")
    case False
    with f show ?thesis by auto
  next
    case True
    from assms(1) obtain x where x: "x \<in> set xs" by (cases xs) auto
    with f True have "\<not> num_lt NInf x" by auto
    moreover from x assms(2) have "x \<noteq> NaN" by auto
    ultimately have "x = NInf" by (cases x) auto
    with x True show ?thesis by simp
  qed
  with f show ?thesis by (simp add: Math_max_def)
qed

text \<open>
  A payload that passes the schema is an object whose fields are the fields of the result.
\<close>

lemma parse_valid_fields:
  assumes "UserCreateSchema_parse is_email b = Inr d"
  shows "\<exists>kvs. b = JObj kvs
         \<and> map_of kvs ''name'' = Some (JStr (uc_name d))
         \<and> map_of kvs ''email'' = Some (JStr (uc_email d))
         \<and> map_of kvs ''age'' = map_option JNum (uc_age d)"
proof (cases b)
  case (JObj kvs)
  with assms have
    "map_of kvs ''name'' = Some (JStr (uc_name d))
     \<and> map_of kvs ''email'' = Some (JStr (uc_email d))
     \<and> map_of kvs ''age'' = map_option JNum (uc_age d)"
    by (auto simp: UserCreateSchema_parse_def zod_string_def zod_number_optional_def Let_def
        split: sum.splits option.splits json.splits list.splits if_splits)
  with JObj show ?thesis by blast
qed (insert assms, simp_all add: UserCreateSchema_parse_def)

text \<open>
  \<^verbatim>\<open>parseInt\<close> on a minus sign and 309 nines: the integer lies beyond the range of the
  doubles, and the result is \<open>-Infinity\<close>.
\<close>

lemma digits_prefix_nines: "digits_prefix 10 (replicate n 0x39) = replicate n 9"
  by (induction n) (simp_all add: digit_in_def)

lemma foldl_nines:
  "foldl (\<lambda>acc d. acc * 10 + d) (a::nat) (replicate n 9) + 1 = (a + 1) * 10 ^ n"
  by (induction n arbitrary: a) (simp_all add: algebra_simps)

lemma parseInt_minus_nines: "parseInt minus_nines = NInf"
proof -
  have r: "replicate 309 (0x39::nat) = 0x39 # 0x39 # replicate 307 0x39"
    by (simp add: numeral_eq_Suc)
  have s1: "strip_sign (dropWhile is_ws minus_nines) = (True, replicate 309 0x39)"
    by (simp add: minus_nines_def is_ws_def strip_sign_def)
  have "strip_radix (0x39 # 0x39 # replicate 307 0x39) =
      (10, 0x39 # 0x39 # replicate 307 0x39)"
    by (simp add: strip_radix_def)
  then have s2: "strip_radix (replicate 309 0x39) = (10, replicate 309 0x39)"
    by (simp only: r [symmetric])
  have ne: "replicate 309 (9::nat) \<noteq> []" by simp
  have "foldl (\<lambda>acc d. acc * 10 + d) (0::nat) (replicate 309 9) + 1 = 10 ^ 309"
    using foldl_nines [of 0 309] by simp
  then have v: "foldl (\<lambda>acc d. acc * 10 + d) (0::nat) (replicate 309 9) = 10 ^ 309 - 1"
    by simp
  have "to_double (- int (10 ^ 309 - 1)) = NInf"
    by (simp add: to_double_def)
  then show ?thesis
    using ne by (simp add: parseInt_def s1 s2 digits_prefix_nines v)
qed

lemma parseInt_1: "parseInt (code_units ''1'') = Fin 1"
  by (simp add: parseInt_eval)

lemma handle_failure_keeps_users:
  assumes fail: "400 \<le> status (fst (handle e now req st))"
  shows "st_users (snd (handle e now req st)) = st_users st"
proof (cases "fst (consume (st_limiter st) (req_ip req) now)")
  case False
  then show ?thesis by (simp add: handle_rejected)
next
  case True
  note h = handle_admitted [OF True, of e]
  with fail have "400 \<le> status (fst (dispatch e now req (st_users st)))" by simp
  from dispatch_failure_keeps_users [OF this] h show ?thesis by simp
qed

text \<open>
  Deleting a record with a finite id, in a state the application reaches from its seed
  collection, leaves no record with that id: the next \<^verbatim>\<open>GET\<close> for the id answers 404.
\<close>

lemma delete_users_id_then_get_finite:
  assumes reach: "users = st_users (snd (serve e evs app_init))"
    and fin: "isFinite (parseInt param)"
    and present: "\<exists>u\<in>set users. strict_eq (user_id u) (parseInt param)"
  shows "fst (delete_users_id param users) = \<lparr>status = 204, body = Empty_body\<rparr>
       \<and> Suc (length (snd (delete_users_id param users))) = length users
       \<and> get_users_id param (snd (delete_users_id param users)) =
             json_error 404 ''User not found''"
proof -
  let ?p = "\<lambda>u. strict_eq (user_id u) (parseInt param)"
  let ?k = "nat (findIndex ?p users)"
  from present have ne: "findIndex ?p users \<noteq> - 1" by (simp add: findIndex_none)
  note f = findIndex_found [OF ne]
  from f have k: "?k < length users" and pk: "?p (users ! ?k)" by blast+
  have del: "delete_users_id param users =
      (\<lparr>status = 204, body = Empty_body\<rparr>, splice1 ?k users)"
    using ne by (simp add: delete_users_id_def Let_def)
  from k have len: "Suc (length (splice1 ?k users)) = length users"
    by (simp add: splice1_def)
  have "finite_ids_distinct (st_users app_init)"
    using users_init_distinct by (simp add: app_init_def)
  then have inv: "finite_ids_distinct users"
    unfolding reach by (rule serve_keeps_distinct)
  from pk have idk: "user_id (users ! ?k) = parseInt param"
    unfolding strict_eq_def by blast
  with fin have fink: "isFinite (user_id (users ! ?k))" by simp
  have "\<not> ?p y" if y: "y \<in> set (splice1 ?k users)" for y
  proof -
    from splice1_drops_unique [OF inv [unfolded finite_ids_distinct_def] k fink y]
    have "user_id y \<noteq> parseInt param" using idk by simp
    then show ?thesis by (simp add: strict_eq_def)
  qed
  then have "find ?p (splice1 ?k users) = None" unfolding find_None_iff by blast
  then have get: "get_users_id param (snd (delete_users_id param users)) =
      json_error 404 ''User not found''"
    by (simp add: del get_users_id_def)
  from del len get show ?thesis by simp
qed

section \<open>Claims\<close>

subsection \<open>Ids assigned on creation\<close>

text \<open>
  Claim C10. For a payload that passes the schema (and a collection within the engine's
  argument limit), \<^verbatim>\<open>POST /users\<close> answers 201 with the record made of a new id and the
  payload's fields, and appends it. The new id is read off the records that are in the
  collection now: on an empty collection it is \<open>-Infinity\<close>, which is not a positive
  number (\<^verbatim>\<open>Math.max\<close> of no arguments is \<open>-Infinity\<close>, and \<open>-Infinity + 1 = -Infinity\<close>);
  otherwise, when no stored id is NaN, it is one plus the id of a stored record whose id no
  stored id exceeds, that is, one plus the maximum of the stored ids; and it is NaN when a
  stored id is NaN.
\<close>

theorem post_users_id_max_of_stored:
  assumes valid: "UserCreateSchema_parse is_email b = Inr d"
    and room: "length users \<le> limit"
  shows "\<exists>newId.
           post_users is_email limit b users =
             (\<lparr>status = 201,
               body = User_body \<lparr>user_id = newId, user_name = uc_name d,
                        user_email = uc_email d, user_age = uc_age d\<rparr>\<rparr>,
              users @ [\<lparr>user_id = newId, user_name = uc_name d,
                        user_email = uc_email d, user_age = uc_age d\<rparr>])
         \<and> (users = [] \<longrightarrow> newId = NInf)
         \<and> (users \<noteq> [] \<and> NaN \<notin> set (map user_id users) \<longrightarrow>
              (\<exists>m\<in>set users.
                 (\<forall>u\<in>set users. \<not> num_lt (user_id m) (user_id u))
               \<and> newId = num_add (user_id m) (Fin 1)))
         \<and> (NaN \<in> set (map user_id users) \<longrightarrow> newId = NaN)
         \<and> Math_max [] = NInf
         \<and> num_add NInf (Fin 1) = NInf
         \<and> \<not> isFinite NInf
         \<and> \<not> num_lt (Fin 0) NInf"
proof -
  let ?n = "num_add (Math_max (map user_id users)) (Fin 1)"
  let ?u = "\<lparr>user_id = ?n, user_name = uc_name d, user_email = uc_email d, user_age = uc_age d\<rparr>"
  have post: "post_users is_email limit b users =
      (\<lparr>status = 201, body = User_body ?u\<rparr>, users @ [?u])"
    using valid room
    by (simp add: post_users_def Math_max_spread_def Let_def make_user_def)
  have empty: "users = [] \<longrightarrow> ?n = NInf"
    by (simp add: Math_max_def)
  have greatest: "\<exists>m\<in>set users.
        (\<forall>u\<in>set users. \<not> num_lt (user_id m) (user_id u))
      \<and> ?n = num_add (user_id m) (Fin 1)"
    if ne: "users \<noteq> []" and nn: "NaN \<notin> set (map user_id users)"
  proof -
    from ne have ne': "map user_id users \<noteq> []" by simp
    from Math_max_greatest [OF ne' nn]
    have mem: "Math_max (map user_id users) \<in> set (map user_id users)"
      and top: "\<forall>x\<in>set (map user_id users). \<not> num_lt (Math_max (map user_id users)) x"
      by blast+
    from mem obtain m where m: "m \<in> set users" "user_id m = Math_max (map user_id users)"
      by auto
    from top m(2) have
      "(\<forall>u\<in>set users. \<not> num_lt (user_id m) (user_id u))
       \<and> ?n = num_add (user_id m) (Fin 1)"
      by simp
    with m(1) show ?thesis by (rule bexI [rotated])
  qed
  have nan: "NaN \<in> set (map user_id users) \<longrightarrow> ?n = NaN"
    by (simp add: Math_max_has_NaN)
  have rest: "Math_max [] = NInf" "num_add NInf (Fin 1) = NInf" "\<not> isFinite NInf"
    "\<not> num_lt (Fin 0) NInf"
    by (simp_all add: Math_max_def)
  have greatest': "users \<noteq> [] \<and> NaN \<notin> set (map user_id users) \<longrightarrow>
      (\<exists>m\<in>set users.
         (\<forall>u\<in>set users. \<not> num_lt (user_id m) (user_id u))
       \<and> ?n = num_add (user_id m) (Fin 1))"
    using greatest by blast
  show ?thesis
    apply (rule exI [of _ ?n])
    apply (rule conjI [OF post])
    apply (rule conjI [OF empty])
    apply (rule conjI [OF greatest'])
    apply (rule conjI [OF nan])
    apply (rule conjI [OF rest(1)])
    apply (rule conjI [OF rest(2)])
    apply (rule conjI [OF rest(3)])
    apply (rule rest(4))
    done
qed

text \<open>
  The seed collection in reverse order (ids 2 and 1) gives id 3, one plus the id of the
  first record; the empty collection gives \<open>-Infinity\<close>.
\<close>

theorem post_users_id_max_of_stored_witness:
  "UserCreateSchema_parse simple_email eve =
     Inr \<lparr>uc_name = ''Eve'', uc_email = ''alice@example.com'', uc_age = Some (Fin 41)\<rparr>
   \<and> length (rev users_init) \<le> 65536
   \<and> map user_id (rev users_init) = [Fin 2, Fin 1]
   \<and> post_users simple_email 65536 eve (rev users_init) =
       (\<lparr>status = 201, body = User_body \<lparr>user_id = Fin 3, user_name = ''Eve'',
           user_email = ''alice@example.com'', user_age = Some (Fin 41)\<rparr>\<rparr>,
        rev users_init @ [\<lparr>user_id = Fin 3, user_name = ''Eve'',
           user_email = ''alice@example.com'', user_age = Some (Fin 41)\<rparr>])
   \<and> (\<exists>m\<in>set (rev users_init).
         \<not> (\<exists>u\<in>set (rev users_init). num_lt (user_id m) (user_id u))
       \<and> Fin 3 = num_add (user_id m) (Fin 1))
   \<and> post_users simple_email 65536 eve [] =
       (\<lparr>status = 201, body = User_body \<lparr>user_id = NInf, user_name = ''Eve'',
           user_email = ''alice@example.com'', user_age = Some (Fin 41)\<rparr>\<rparr>,
        [\<lparr>user_id = NInf, user_name = ''Eve'',
           user_email = ''alice@example.com'', user_age = Some (Fin 41)\<rparr>])"
proof -
  let ?d = "\<lparr>uc_name = ''Eve'', uc_email = ''alice@example.com'', uc_age = Some (Fin 41)\<rparr>"
  have room: "length (rev users_init) \<le> 65536" by (simp add: users_init_def)
  have room0: "length ([] :: user list) \<le> 65536" by simp
  have ids: "map user_id (rev users_init) = [Fin 2, Fin 1]" by (simp add: users_init_def)
  have ne: "rev users_init \<noteq> []" and nn: "NaN \<notin> set (map user_id (rev users_init))"
    by (simp_all add: users_init_def)
  from post_users_id_max_of_stored [OF eve_valid room]
  obtain newId where
    p: "post_users simple_email 65536 eve (rev users_init) =
          (\<lparr>status = 201,
            body = User_body \<lparr>user_id = newId, user_name = uc_name ?d,
                     user_email = uc_email ?d, user_age = uc_age ?d\<rparr>\<rparr>,
           rev users_init @ [\<lparr>user_id = newId, user_name = uc_name ?d,
                     user_email = uc_email ?d, user_age = uc_age ?d\<rparr>])"
    and g: "rev users_init \<noteq> [] \<and> NaN \<notin> set (map user_id (rev users_init)) \<longrightarrow>
          (\<exists>m\<in>set (rev users_init).
             (\<forall>u\<in>set (rev users_init). \<not> num_lt (user_id m) (user_id u))
           \<and> newId = num_add (user_id m) (Fin 1))"
    by blast
  from g ne nn obtain m where m: "m \<in> set (rev users_init)"
    "\<forall>u\<in>set (rev users_init). \<not> num_lt (user_id m) (user_id u)"
    "newId = num_add (user_id m) (Fin 1)"
    by blast
  from m(1,2) have "user_id m = Fin 2" by (auto simp: users_init_def)
  with m(3) have n3: "newId = Fin 3" by simp
  from m(2) have "\<not> (\<exists>u\<in>set (rev users_init). num_lt (user_id m) (user_id u))"
    by (simp only: bex_simps ball_simps not_not)
  moreover from m(3) n3 have "Fin 3 = num_add (user_id m) (Fin 1)" by (simp only:)
  ultimately have
    "\<not> (\<exists>u\<in>set (rev users_init). num_lt (user_id m) (user_id u))
     \<and> Fin 3 = num_add (user_id m) (Fin 1)" by (rule conjI)
  with m(1) have top: "\<exists>m\<in>set (rev users_init).
         \<not> (\<exists>u\<in>set (rev users_init). num_lt (user_id m) (user_id u))
       \<and> Fin 3 = num_add (user_id m) (Fin 1)"
    by (rule bexI [rotated])
  from post_users_id_max_of_stored [OF eve_valid room0]
  obtain newId0 where
    p0: "post_users simple_email 65536 eve [] =
          (\<lparr>status = 201,
            body = User_body \<lparr>user_id = newId0, user_name = uc_name ?d,
                     user_email = uc_email ?d, user_age = uc_age ?d\<rparr>\<rparr>,
           [] @ [\<lparr>user_id = newId0, user_name = uc_name ?d,
                     user_email = uc_email ?d, user_age = uc_age ?d\<rparr>])"
    and e0: "([] :: user list) = [] \<longrightarrow> newId0 = NInf"
    by blast
  from e0 have "newId0 = NInf" by simp
  with p0 have q0: "post_users simple_email 65536 eve [] =
       (\<lparr>status = 201, body = User_body \<lparr>user_id = NInf, user_name = ''Eve'',
           user_email = ''alice@example.com'', user_age = Some (Fin 41)\<rparr>\<rparr>,
        [\<lparr>user_id = NInf, user_name = ''Eve'',
           user_email = ''alice@example.com'', user_age = Some (Fin 41)\<rparr>])"
    by simp
  from p n3 have q: "post_users simple_email 65536 eve (rev users_init) =
       (\<lparr>status = 201, body = User_body \<lparr>user_id = Fin 3, user_name = ''Eve'',
           user_email = ''alice@example.com'', user_age = Some (Fin 41)\<rparr>\<rparr>,
        rev users_init @ [\<lparr>user_id = Fin 3, user_name = ''Eve'',
           user_email = ''alice@example.com'', user_age = Some (Fin 41)\<rparr>])"
    by simp
  show ?thesis
    apply (rule conjI [OF eve_valid])
    apply (rule conjI [OF room])
    apply (rule conjI [OF ids])
    apply (rule conjI [OF q])
    apply (rule conjI [OF top])
    apply (rule q0)
    done
qed

text \<open>
  Claim C1, as amended. The claim speaks of all ids ever assigned; the handler only looks
  at the ids that are stored now. What holds: for a valid payload that is accepted (the
  collection is within the engine's argument limit), on a non-empty collection whose ids
  are safe integers, the new id is a finite number that is one more than the id of some
  stored record, strictly greater than the id of every stored record, and equal to none of
  them.
\<close>

theorem post_users_id_above_stored:
  assumes valid: "UserCreateSchema_parse is_email b = Inr d"
    and room: "length users \<le> limit"
    and nonempty: "users \<noteq> []"
    and safe: "\<forall>u\<in>set users. isSafeInteger (user_id u)"
  shows "\<exists>r. post_users is_email limit b users =
              (\<lparr>status = 201, body = User_body (make_user (Fin r) d)\<rparr>,
               users @ [make_user (Fin r) d])
           \<and> (\<forall>u\<in>set users. num_lt (user_id u) (Fin r))
           \<and> (\<forall>u\<in>set users. \<not> strict_eq (user_id u) (Fin r))
           \<and> (\<exists>u\<in>set users. num_add (user_id u) (Fin 1) = Fin r)"
proof -
  from safe obtain rs where rs: "map user_id users = map Fin rs"
    using safe_ids_are_Fin by blast
  with nonempty have ne: "rs \<noteq> []" by auto
  let ?m = "Max (set rs)"
  have mx: "Math_max (map user_id users) = Fin ?m"
    using rs ne by (simp add: Math_max_Fin)
  have post: "post_users is_email limit b users =
      (\<lparr>status = 201, body = User_body (make_user (Fin (?m + 1)) d)\<rparr>,
       users @ [make_user (Fin (?m + 1)) d])"
    using valid room mx by (simp add: post_users_def Math_max_spread_def Let_def)
  have below: "num_lt (user_id u) (Fin (?m + 1))" if "u \<in> set users" for u
  proof -
    from that have "user_id u \<in> set (map Fin rs)" using rs by (metis image_eqI set_map)
    then obtain r where r: "r \<in> set rs" "user_id u = Fin r" by auto
    then have "r \<le> ?m" by simp
    then have "r < ?m + 1" by linarith
    with r show ?thesis by simp
  qed
  have differ: "\<not> strict_eq (user_id u) (Fin (?m + 1))" if "u \<in> set users" for u
  proof
    assume "strict_eq (user_id u) (Fin (?m + 1))"
    then have "user_id u = Fin (?m + 1)" by (simp add: strict_eq_def)
    with below [OF that] show False by simp
  qed
  have top: "\<exists>u\<in>set users. num_add (user_id u) (Fin 1) = Fin (?m + 1)"
  proof -
    have "?m \<in> set rs" using ne by (intro Max_in) simp_all
    then have "Fin ?m \<in> set (map user_id users)" using rs by simp
    then obtain u where "u \<in> set users" "user_id u = Fin ?m" by auto
    then show ?thesis by (intro bexI [of _ u]) simp_all
  qed
  from post below differ top show ?thesis by blast
qed

text \<open>
  On the seed collection the hypotheses hold.
\<close>

theorem post_users_id_above_stored_witness:
  "UserCreateSchema_parse simple_email eve =
     Inr \<lparr>uc_name = ''Eve'', uc_email = ''alice@example.com'', uc_age = Some (Fin 41)\<rparr>
   \<and> length users_init \<le> 65536
   \<and> users_init \<noteq> []
   \<and> isSafeInteger (user_id (users_init ! 0)) \<and> isSafeInteger (user_id (users_init ! 1))
   \<and> length users_init = 2
   \<and> (\<exists>r. post_users simple_email 65536 eve users_init =
          (\<lparr>status = 201, body = User_body (make_user (Fin r)
             \<lparr>uc_name = ''Eve'', uc_email = ''alice@example.com'', uc_age = Some (Fin 41)\<rparr>)\<rparr>,
           users_init @ [make_user (Fin r)
             \<lparr>uc_name = ''Eve'', uc_email = ''alice@example.com'', uc_age = Some (Fin 41)\<rparr>])
        \<and> num_lt (user_id (users_init ! 0)) (Fin r)
        \<and> num_lt (user_id (users_init ! 1)) (Fin r))"
proof -
  have ne: "users_init \<noteq> []" by (simp add: users_init_def)
  have room: "length users_init \<le> 65536" by (simp add: users_init_def)
  have safe: "\<forall>u\<in>set users_init. isSafeInteger (user_id u)"
    by (simp add: users_init_def)
  from post_users_id_above_stored [OF eve_valid room ne safe]
  obtain r where "post_users simple_email 65536 eve users_init =
          (\<lparr>status = 201, body = User_body (make_user (Fin r)
             \<lparr>uc_name = ''Eve'', uc_email = ''alice@example.com'', uc_age = Some (Fin 41)\<rparr>)\<rparr>,
           users_init @ [make_user (Fin r)
             \<lparr>uc_name = ''Eve'', uc_email = ''alice@example.com'', uc_age = Some (Fin 41)\<rparr>])"
    and "\<forall>u\<in>set users_init. num_lt (user_id u) (Fin r)"
    by blast
  moreover have "users_init ! 0 \<in> set users_init" "users_init ! 1 \<in> set users_init"
    by (simp_all add: users_init_def)
  moreover have "isSafeInteger (user_id (users_init ! 0))" "isSafeInteger (user_id (users_init ! 1))"
    "length users_init = 2"
    by (simp_all add: users_init_def)
  ultimately show ?thesis using eve_valid ne room by blast
qed

text \<open>
  Claim C1 as stated fails: create a user (id 3), delete user 3, create another user.
  The second creation is answered with id 3 again, an id that was assigned before and
  that is not greater than it.
\<close>

theorem post_users_id_reused:
  "fst (serve sample_env
         [(0, request_of Post_users bobby),
          (1000, request_of (Delete_users_id (code_units ''3'')) no_body),
          (2000, request_of Post_users eve)] app_init) =
     [\<lparr>status = 201, body = User_body \<lparr>user_id = Fin 3, user_name = ''Bobby'',
         user_email = ''bobby@example.com'', user_age = None\<rparr>\<rparr>,
      \<lparr>status = 204, body = Empty_body\<rparr>,
      \<lparr>status = 201, body = User_body \<lparr>user_id = Fin 3, user_name = ''Eve'',
         user_email = ''alice@example.com'', user_age = Some (Fin 41)\<rparr>\<rparr>]"
  by (simp add: pipeline_eval users_eval schema_eval parseInt_eval bobby_def eve_def)

subsection \<open>Update and unparsable ids\<close>

text \<open>
  Claim C8. For \<^verbatim>\<open>PUT /users/:id\<close> with a body that passes the schema and an id that
  some stored record holds: the answer is 200 with the record whose id is the path id and
  whose name, email and age are those of the payload (the age absent when the payload has
  none); that record replaces the first record with this id (position \<open>k\<close>), its id is the
  id of the record it replaces, the collection keeps its length, and every other position
  holds the record it held before.
\<close>

theorem put_users_id_replaces_one:
  assumes valid: "UserCreateSchema_parse is_email b = Inr d"
    and present: "\<exists>u\<in>set users. strict_eq (user_id u) (parseInt param)"
  shows "\<exists>k < length users.
           strict_eq (user_id (users ! k)) (parseInt param)
         \<and> (\<forall>j < k. \<not> strict_eq (user_id (users ! j)) (parseInt param))
         \<and> put_users_id is_email param b users =
             (\<lparr>status = 200,
               body = User_body \<lparr>user_id = parseInt param, user_name = uc_name d,
                        user_email = uc_email d, user_age = uc_age d\<rparr>\<rparr>,
              users[k := \<lparr>user_id = parseInt param, user_name = uc_name d,
                        user_email = uc_email d, user_age = uc_age d\<rparr>])
         \<and> parseInt param = user_id (users ! k)
         \<and> (\<exists>kvs. b = JObj kvs
                \<and> map_of kvs ''name'' = Some (JStr (uc_name d))
                \<and> map_of kvs ''email'' = Some (JStr (uc_email d))
                \<and> map_of kvs ''age'' = map_option JNum (uc_age d))
         \<and> length (snd (put_users_id is_email param b users)) = length users
         \<and> (\<forall>j < length users. j \<noteq> k \<longrightarrow>
               snd (put_users_id is_email param b users) ! j = users ! j)"
proof -
  let ?p = "\<lambda>u. strict_eq (user_id u) (parseInt param)"
  let ?k = "nat (findIndex ?p users)"
  let ?r = "\<lparr>user_id = parseInt param, user_name = uc_name d,
             user_email = uc_email d, user_age = uc_age d\<rparr>"
  from present have ne: "findIndex ?p users \<noteq> - 1" by (simp add: findIndex_none)
  note f = findIndex_found [OF ne]
  from f have k: "?k < length users" and pk: "?p (users ! ?k)"
    and first: "\<forall>j < ?k. \<not> ?p (users ! j)" by blast+
  have put: "put_users_id is_email param b users =
      (\<lparr>status = 200, body = User_body ?r\<rparr>, users[?k := ?r])"
    using valid ne by (simp add: put_users_id_def Let_def make_user_def)
  from pk have "user_id (users ! ?k) = parseInt param"
    unfolding strict_eq_def by blast
  then have same: "parseInt param = user_id (users ! ?k)" by (rule sym)
  note fields = parse_valid_fields [OF valid]
  have len: "length (snd (put_users_id is_email param b users)) = length users"
    by (simp add: put)
  have frame: "\<forall>j < length users. j \<noteq> ?k \<longrightarrow>
      snd (put_users_id is_email param b users) ! j = users ! j"
    by (simp add: put)
  show ?thesis
    apply (rule exI [of _ ?k])
    apply (rule conjI [OF k])
    apply (rule conjI [OF pk])
    apply (rule conjI [OF first])
    apply (rule conjI [OF put])
    apply (rule conjI [OF same])
    apply (rule conjI [OF fields])
    apply (rule conjI [OF len])
    apply (rule frame)
    done
qed

text \<open>
  Updating user 2 of the seed collection with a payload that has an age.
\<close>

theorem put_users_id_replaces_one_witness:
  "UserCreateSchema_parse simple_email eve =
     Inr \<lparr>uc_name = ''Eve'', uc_email = ''alice@example.com'', uc_age = Some (Fin 41)\<rparr>
   \<and> (\<exists>u\<in>set users_init. strict_eq (user_id u) (parseInt (code_units ''2'')))
   \<and> put_users_id simple_email (code_units ''2'') eve users_init =
       (\<lparr>status = 200, body = User_body \<lparr>user_id = Fin 2, user_name = ''Eve'',
           user_email = ''alice@example.com'', user_age = Some (Fin 41)\<rparr>\<rparr>,
        [users_init ! 0, \<lparr>user_id = Fin 2, user_name = ''Eve'',
           user_email = ''alice@example.com'', user_age = Some (Fin 41)\<rparr>])"
proof -
  let ?d = "\<lparr>uc_name = ''Eve'', uc_email = ''alice@example.com'', uc_age = Some (Fin 41)\<rparr>"
  let ?r = "\<lparr>user_id = parseInt (code_units ''2''), user_name = uc_name ?d,
             user_email = uc_email ?d, user_age = uc_age ?d\<rparr>"
  have p: "\<exists>u\<in>set users_init. strict_eq (user_id u) (parseInt (code_units ''2''))"
    by (simp add: parseInt_2 users_init_def strict_eq_def)
  from put_users_id_replaces_one [OF eve_valid p]
  obtain k where
    "k < length users_init
     \<and> strict_eq (user_id (users_init ! k)) (parseInt (code_units ''2''))
     \<and> (\<forall>j < k. \<not> strict_eq (user_id (users_init ! j)) (parseInt (code_units ''2'')))
     \<and> put_users_id simple_email (code_units ''2'') eve users_init =
         (\<lparr>status = 200, body = User_body ?r\<rparr>, users_init[k := ?r])
     \<and> parseInt (code_units ''2'') = user_id (users_init ! k)
     \<and> (\<exists>kvs. eve = JObj kvs
            \<and> map_of kvs ''name'' = Some (JStr (uc_name ?d))
            \<and> map_of kvs ''email'' = Some (JStr (uc_email ?d))
            \<and> map_of kvs ''age'' = map_option JNum (uc_age ?d))
     \<and> length (snd (put_users_id simple_email (code_units ''2'') eve users_init)) =
         length users_init
     \<and> (\<forall>j < length users_init. j \<noteq> k \<longrightarrow>
           snd (put_users_id simple_email (code_units ''2'') eve users_init) ! j =
             users_init ! j)" ..
  note all = this
  note k = all [THEN conjunct1] all [THEN conjunct2, THEN conjunct1]
  note put = all [THEN conjunct2, THEN conjunct2, THEN conjunct2, THEN conjunct1]
  from k have "k = 1"
    by (cases k) (auto simp: users_init_def parseInt_2 strict_eq_def)
  with put have q: "put_users_id simple_email (code_units ''2'') eve users_init =
       (\<lparr>status = 200, body = User_body \<lparr>user_id = Fin 2, user_name = ''Eve'',
           user_email = ''alice@example.com'', user_age = Some (Fin 41)\<rparr>\<rparr>,
        [users_init ! 0, \<lparr>user_id = Fin 2, user_name = ''Eve'',
           user_email = ''alice@example.com'', user_age = Some (Fin 41)\<rparr>])"
    by (simp add: parseInt_2 users_init_def)
  show ?thesis
    apply (rule conjI [OF eve_valid])
    apply (rule conjI [OF p])
    apply (rule q)
    done
qed

text \<open>
  Claim C9. When \<^verbatim>\<open>parseInt\<close> of the \<^verbatim>\<open>:id\<close> parameter is NaN, the strict comparison
  with a stored id is false for every record, so \<^verbatim>\<open>GET\<close>, \<^verbatim>\<open>PUT\<close> (with a valid
  body) and \<^verbatim>\<open>DELETE\<close> on \<^verbatim>\<open>/users/:id\<close> all answer 404 "User not found" and the
  collection stays as it is.
\<close>

theorem nan_id_is_not_found:
  assumes nan: "parseInt param = NaN"
  shows "get_users_id param users = json_error 404 ''User not found''
       \<and> (UserCreateSchema_parse is_email b = Inr d \<longrightarrow>
            put_users_id is_email param b users = (json_error 404 ''User not found'', users))
       \<and> delete_users_id param users = (json_error 404 ''User not found'', users)"
  using nan by (simp add: get_users_id_def put_users_id_def delete_users_id_def
      find_NaN findIndex_NaN)

text \<open>
  The parameter \<^verbatim>\<open>abc\<close> on the seed collection.
\<close>

theorem nan_id_is_not_found_witness:
  "parseInt (code_units ''abc'') = NaN
   \<and> get_users_id (code_units ''abc'') users_init = json_error 404 ''User not found''
   \<and> UserCreateSchema_parse simple_email bobby =
        Inr \<lparr>uc_name = ''Bobby'', uc_email = ''bobby@example.com'', uc_age = None\<rparr>
   \<and> put_users_id simple_email (code_units ''abc'') bobby users_init =
        (json_error 404 ''User not found'', users_init)
   \<and> delete_users_id (code_units ''abc'') users_init =
        (json_error 404 ''User not found'', users_init)"
  using nan_id_is_not_found [OF parseInt_abc, of users_init simple_email bobby
      "\<lparr>uc_name = ''Bobby'', uc_email = ''bobby@example.com'', uc_age = None\<rparr>"]
    parseInt_abc bobby_valid
  by simp

subsection \<open>Deletion\<close>

text \<open>
  Claim C7. The claim fails on the code after the collection has been emptied: delete both
  seed records and create two users. Both creations are answered with the id
  \<open>-Infinity\<close> (the empty-collection case of C10, and one plus \<open>-Infinity\<close> again). The
  path parameter made of a minus sign and 309 nines is read as \<open>-Infinity\<close>, so
  \<^verbatim>\<open>DELETE\<close> with it removes the first of the two records and answers 204, and the
  \<^verbatim>\<open>GET\<close> that follows with the same parameter finds the second one and answers 200,
  where the claim says 404.
\<close>

theorem delete_then_get_finds_twin:
  "fst (serve sample_env
         [(0, request_of (Delete_users_id (code_units ''1'')) no_body),
          (1000, request_of (Delete_users_id (code_units ''2'')) no_body),
          (2000, request_of Post_users bobby),
          (3000, request_of Post_users eve),
          (4000, request_of (Delete_users_id minus_nines) no_body),
          (5000, request_of (Get_users_id minus_nines) no_body)] app_init) =
     [\<lparr>status = 204, body = Empty_body\<rparr>,
      \<lparr>status = 204, body = Empty_body\<rparr>,
      \<lparr>status = 201, body = User_body \<lparr>user_id = NInf, user_name = ''Bobby'',
         user_email = ''bobby@example.com'', user_age = None\<rparr>\<rparr>,
      \<lparr>status = 201, body = User_body \<lparr>user_id = NInf, user_name = ''Eve'',
         user_email = ''alice@example.com'', user_age = Some (Fin 41)\<rparr>\<rparr>,
      \<lparr>status = 204, body = Empty_body\<rparr>,
      \<lparr>status = 200, body = User_body \<lparr>user_id = NInf, user_name = ''Eve'',
         user_email = ''alice@example.com'', user_age = Some (Fin 41)\<rparr>\<rparr>]"
  by (simp add: pipeline_eval users_eval schema_eval parseInt_1 parseInt_2
      parseInt_minus_nines bobby_def eve_def no_body_def)

subsection \<open>Emails\<close>

text \<open>
  Claim C3, as amended. The collection does not keep emails unique. What holds: for a
  payload that passes the schema, \<^verbatim>\<open>POST /users\<close> (when it accepts the payload) appends
  a record with the payload's email and \<^verbatim>\<open>PUT /users/:id\<close> writes the payload's email
  into the record it replaces (position \<open>k\<close>), whatever emails the other records hold.
\<close>

theorem write_handlers_store_payload_email:
  assumes valid: "UserCreateSchema_parse is_email b = Inr d"
    and room: "length users \<le> limit"
  shows "map user_email (snd (post_users is_email limit b users)) =
           map user_email users @ [uc_email d]
       \<and> (\<forall>k. findIndex (\<lambda>u. strict_eq (user_id u) (parseInt param)) users = int k \<longrightarrow>
            map user_email (snd (put_users_id is_email param b users)) =
              (map user_email users)[k := uc_email d])"
  using valid room
  by (simp add: post_users_def Math_max_spread_def put_users_id_def Let_def make_user_def
      map_update)

text \<open>
  Creating a user with, and changing user 2 to, the email of user 1.
\<close>

theorem write_handlers_store_payload_email_witness:
  "UserCreateSchema_parse simple_email eve =
     Inr \<lparr>uc_name = ''Eve'', uc_email = ''alice@example.com'', uc_age = Some (Fin 41)\<rparr>
   \<and> length users_init \<le> 65536
   \<and> map user_email (snd (post_users simple_email 65536 eve users_init)) =
       [''alice@example.com'', ''bob@example.com'', ''alice@example.com'']
   \<and> findIndex (\<lambda>u. strict_eq (user_id u) (parseInt (code_units ''2''))) users_init = 1
   \<and> map user_email (snd (put_users_id simple_email (code_units ''2'') eve users_init)) =
       [''alice@example.com'', ''alice@example.com'']"
proof -
  have k: "findIndex (\<lambda>u. strict_eq (user_id u) (parseInt (code_units ''2''))) users_init = int 1"
    by (simp add: parseInt_2 users_init_def strict_eq_def)
  have room: "length users_init \<le> 65536" by (simp add: users_init_def)
  from write_handlers_store_payload_email [OF eve_valid room, of "code_units ''2''"] k
  have "map user_email (snd (post_users simple_email 65536 eve users_init)) =
          map user_email users_init @ [''alice@example.com'']"
    "map user_email (snd (put_users_id simple_email (code_units ''2'') eve users_init)) =
          (map user_email users_init)[1 := ''alice@example.com'']"
    by simp_all
  with k eve_valid room show ?thesis by (simp add: users_init_def)
qed

text \<open>
  Claim C3 as stated fails: a creation request carrying the email of user 1 is answered
  with 201, and afterwards the records with ids 1 and 3 hold the same email.
\<close>

theorem duplicate_email_stored:
  "fst (serve sample_env [(0, request_of Post_users eve)] app_init) =
     [\<lparr>status = 201, body = User_body \<lparr>user_id = Fin 3, user_name = ''Eve'',
         user_email = ''alice@example.com'', user_age = Some (Fin 41)\<rparr>\<rparr>]
   \<and> map user_id (st_users (snd (serve sample_env [(0, request_of Post_users eve)] app_init))) =
     [Fin 1, Fin 2, Fin 3]
   \<and> map user_email (st_users (snd (serve sample_env [(0, request_of Post_users eve)] app_init))) =
     [''alice@example.com'', ''bob@example.com'', ''alice@example.com'']
   \<and> \<not> distinct (map user_email
         (st_users (snd (serve sample_env [(0, request_of Post_users eve)] app_init))))"
  by (simp add: pipeline_eval users_eval schema_eval eve_def)

subsection \<open>Failed requests\<close>

text \<open>
  Claim C4. A request answered with a status of 400 or more leaves the user collection as
  it was, at every stage of the application: a request whose body the parser refuses is
  answered 500 by the error middleware and changes nothing; a request that reaches the
  limiter is answered 429 by it, or 400, 401, 403, 404 or 500 by a route or by the error
  middleware behind the routes, with the collection untouched. In particular the create and the update handler parse the payload
  before anything else and answer 400 with the issues and the collection unchanged when the
  schema rejects it, and the create handler answers 500 with the collection unchanged when
  the spread call throws.
\<close>

theorem failed_request_keeps_users:
  "(400 \<le> status (fst (receive e now i st)) \<longrightarrow>
      st_users (snd (receive e now i st)) = st_users st)
   \<and> (400 \<le> status (fst (handle e now req st)) \<longrightarrow>
      st_users (snd (handle e now req st)) = st_users st)
   \<and> (express_json (in_payload i) = None \<longrightarrow>
      receive e now i st = (json_error 500 ''Internal server error'', st))
   \<and> (UserCreateSchema_parse is_email b = Inl errs \<longrightarrow>
        post_users is_email limit b users = (validation_failed errs, users)
      \<and> put_users_id is_email param b users = (validation_failed errs, users))
   \<and> (UserCreateSchema_parse is_email b = Inr d \<and> limit < length users \<longrightarrow>
        post_users is_email limit b users =
          (json_error 500 ''Internal server error'', users))"
proof -
  have a: "400 \<le> status (fst (receive e now i st)) \<longrightarrow>
      st_users (snd (receive e now i st)) = st_users st"
  proof (cases "express_json (in_payload i)")
    case None
    then show ?thesis by (simp add: receive_def)
  next
    case (Some body)
    then show ?thesis by (simp add: receive_def handle_failure_keeps_users)
  qed
  have b: "400 \<le> status (fst (handle e now req st)) \<longrightarrow>
      st_users (snd (handle e now req st)) = st_users st"
    by (simp add: handle_failure_keeps_users)
  have c: "express_json (in_payload i) = None \<longrightarrow>
      receive e now i st = (json_error 500 ''Internal server error'', st)"
    by (simp add: receive_def error_middleware_def)
  have d: "UserCreateSchema_parse is_email b = Inl errs \<longrightarrow>
        post_users is_email limit b users = (validation_failed errs, users)
      \<and> put_users_id is_email param b users = (validation_failed errs, users)"
    by (simp add: post_users_def put_users_id_def catch_block_def)
  have e: "UserCreateSchema_parse is_email b = Inr d \<and> limit < length users \<longrightarrow>
        post_users is_email limit b users =
          (json_error 500 ''Internal server error'', users)"
    by (simp add: post_users_def Math_max_spread_def catch_block_def)
  show ?thesis
    apply (rule conjI [OF a])
    apply (rule conjI [OF b])
    apply (rule conjI [OF c])
    apply (rule conjI [OF d])
    apply (rule e)
    done
qed

text \<open>
  A creation request whose body is the JSON text \<^verbatim>\<open>null\<close> (500), creation and update
  requests with an empty name and no email (400), a creation request on a collection of
  65537 records with an argument limit of 65536 (500), and a request whose path parameter
  cannot be decoded (500).
\<close>

theorem failed_request_keeps_users_witness:
  "express_json (in_payload (inbound_of Post_users (Json_payload JNull))) = None
   \<and> receive sample_env 0 (inbound_of Post_users (Json_payload JNull)) app_init =
       (json_error 500 ''Internal server error'', app_init)
   \<and> UserCreateSchema_parse simple_email (JObj [(''name'', JStr [])]) =
       Inl [(too_small, [''name'']), (invalid_type, [''email''])]
   \<and> fst (receive sample_env 0
         (inbound_of Post_users (Json_payload (JObj [(''name'', JStr [])]))) app_init) =
       \<lparr>status = 400,
        body = Validation_body [(too_small, [''name'']), (invalid_type, [''email''])]\<rparr>
   \<and> st_users (snd (receive sample_env 0
         (inbound_of Post_users (Json_payload (JObj [(''name'', JStr [])]))) app_init)) =
       st_users app_init
   \<and> put_users_id simple_email (code_units ''1'') (JObj [(''name'', JStr [])]) users_init =
       (validation_failed [(too_small, [''name'']), (invalid_type, [''email''])], users_init)
   \<and> UserCreateSchema_parse simple_email eve =
       Inr \<lparr>uc_name = ''Eve'', uc_email = ''alice@example.com'', uc_age = Some (Fin 41)\<rparr>
   \<and> 65536 < length (replicate 65537 (users_init ! 0))
   \<and> post_users simple_email 65536 eve (replicate 65537 (users_init ! 0)) =
       (json_error 500 ''Internal server error'', replicate 65537 (users_init ! 0))
   \<and> fst (handle sample_env 0 (request_of Undecodable_param no_body) app_init) =
       json_error 500 ''Internal server error''
   \<and> st_users (snd (handle sample_env 0 (request_of Undecodable_param no_body) app_init)) =
       st_users app_init"
proof -
  let ?b = "JObj [(''name'', JStr [])]"
  let ?errs = "[(too_small, [''name'']), (invalid_type, [''email''])]"
  let ?d = "\<lparr>uc_name = ''Eve'', uc_email = ''alice@example.com'', uc_age = Some (Fin 41)\<rparr>"
  let ?null = "inbound_of Post_users (Json_payload JNull)"
  let ?bad = "inbound_of Post_users (Json_payload ?b)"
  let ?many = "replicate 65537 (users_init ! 0)"
  have refused: "express_json (in_payload ?null) = None"
    by (simp add: express_json_def inbound_of_def)
  have bad: "UserCreateSchema_parse simple_email ?b = Inl ?errs"
    by (simp add: schema_eval)
  have r: "fst (receive sample_env 0 ?bad app_init) =
      \<lparr>status = 400, body = Validation_body ?errs\<rparr>"
    by (simp add: receive_def express_json_def inbound_of_def pipeline_eval users_eval
        schema_eval)
  then have fail: "400 \<le> status (fst (receive sample_env 0 ?bad app_init))" by simp
  have big: "65536 < length ?many" by simp
  note T1 = failed_request_keeps_users [of sample_env 0 ?null app_init
      "request_of Post_users ?b" simple_email ?b ?errs 65536 users_init "code_units ''1''" ?d]
  note T2 = failed_request_keeps_users [of sample_env 0 ?bad app_init
      "request_of Undecodable_param no_body" simple_email eve ?errs 65536 ?many
      "code_units ''1''" ?d]
  have u: "fst (handle sample_env 0 (request_of Undecodable_param no_body) app_init) =
      json_error 500 ''Internal server error''"
    by (simp add: pipeline_eval error_middleware_def)
  then have "400 \<le> status (fst (handle sample_env 0
      (request_of Undecodable_param no_body) app_init))"
    by (simp add: json_error_def)
  from T2 [THEN conjunct2, THEN conjunct1, THEN mp, OF this]
  have w5: "st_users (snd (handle sample_env 0
      (request_of Undecodable_param no_body) app_init)) = st_users app_init" .
  from T1 [THEN conjunct2, THEN conjunct2, THEN conjunct1, THEN mp, OF refused]
  have w1: "receive sample_env 0 ?null app_init =
      (json_error 500 ''Internal server error'', app_init)" .
  from T2 [THEN conjunct1, THEN mp, OF fail]
  have w2: "st_users (snd (receive sample_env 0 ?bad app_init)) = st_users app_init" .
  from T1 [THEN conjunct2, THEN conjunct2, THEN conjunct2, THEN conjunct1, THEN mp, OF bad]
  have w3: "put_users_id simple_email (code_units ''1'') ?b users_init =
      (validation_failed ?errs, users_init)"
    by (rule conjunct2)
  from eve_valid big have vb: "UserCreateSchema_parse simple_email eve = Inr ?d
      \<and> 65536 < length ?many" by (rule conjI)
  from T2 [THEN conjunct2, THEN conjunct2, THEN conjunct2, THEN conjunct2, THEN mp, OF vb]
  have w4: "post_users simple_email 65536 eve ?many =
      (json_error 500 ''Internal server error'', ?many)" .
  show ?thesis
    apply (rule conjI [OF refused])
    apply (rule conjI [OF w1])
    apply (rule conjI [OF bad])
    apply (rule conjI [OF r])
    apply (rule conjI [OF w2])
    apply (rule conjI [OF w3])
    apply (rule conjI [OF eve_valid])
    apply (rule conjI [OF big])
    apply (rule conjI [OF w4])
    apply (rule conjI [OF u])
    apply (rule w5)
    done
qed

subsection \<open>Claims about authentication\<close>

text \<open>
  Claim C5. On \<^verbatim>\<open>GET /protected\<close>: without an \<^verbatim>\<open>Authorization\<close> header, or with a
  header that carries no token (no second piece after a space, or an empty one), the
  answer is 401 "Access token required"; with a token that does not decode under the
  secret (bad signature or malformed) or whose expiry second has been reached, the answer
  is 403 "Invalid token" (stated for any header the token is read from, and for the
  header \<^verbatim>\<open>Bearer <token>\<close> in particular). In both cases \<^const>\<open>authenticateToken\<close> answers
  itself and does not pass the request on to the route handler.
\<close>

theorem protected_rejects:
  "get_protected e now None = json_error 401 ''Access token required''
   \<and> ((header_token authHeader = None \<or> header_token authHeader = Some []) \<longrightarrow>
       authenticateToken e now authHeader = Inl (json_error 401 ''Access token required'')
     \<and> get_protected e now authHeader = json_error 401 ''Access token required'')
   \<and> (\<forall>t. header_token authHeader = Some t \<and> t \<noteq> [] \<and>
          (jwt_decode e (JWT_SECRET e) t = None
           \<or> (\<exists>c. jwt_decode e (JWT_SECRET e) t = Some c \<and> claim_exp c \<le> now div 1000)) \<longrightarrow>
       authenticateToken e now authHeader = Inl (json_error 403 ''Invalid token'')
     \<and> get_protected e now authHeader = json_error 403 ''Invalid token'')
   \<and> (\<forall>t. t \<noteq> [] \<and> CHR '' '' \<notin> set t \<and>
          (jwt_decode e (JWT_SECRET e) t = None
           \<or> (\<exists>c. jwt_decode e (JWT_SECRET e) t = Some c \<and> claim_exp c \<le> now div 1000)) \<longrightarrow>
       get_protected e now (Some (''Bearer '' @ t)) = json_error 403 ''Invalid token'')"
proof -
  have a: "get_protected e now None = json_error 401 ''Access token required''"
    by (simp add: get_protected_def authenticateToken_def header_token_def)
  have b: "authenticateToken e now authHeader = Inl (json_error 401 ''Access token required'')
      \<and> get_protected e now authHeader = json_error 401 ''Access token required''"
    if "header_token authHeader = None \<or> header_token authHeader = Some []"
    using that by (auto simp: get_protected_def authenticateToken_def)
  have c: "authenticateToken e now h = Inl (json_error 403 ''Invalid token'')
      \<and> get_protected e now h = json_error 403 ''Invalid token''"
    if "header_token h = Some t" "t \<noteq> []"
      "jwt_decode e (JWT_SECRET e) t = None
       \<or> (\<exists>c. jwt_decode e (JWT_SECRET e) t = Some c \<and> claim_exp c \<le> now div 1000)"
    for h t
    using that by (auto simp: get_protected_def authenticateToken_def jwt_verify_def)
  have d: "get_protected e now (Some (''Bearer '' @ t)) = json_error 403 ''Invalid token''"
    if "t \<noteq> []" "CHR '' '' \<notin> set t"
      "jwt_decode e (JWT_SECRET e) t = None
       \<or> (\<exists>c. jwt_decode e (JWT_SECRET e) t = Some c \<and> claim_exp c \<le> now div 1000)"
    for t
    using c [OF header_token_Bearer [OF that(2)] that(1) that(3)] by blast
  from a b c d show ?thesis by blast
qed

text \<open>
  No header, a header without token, a token that is not one, and an expired token.
\<close>

theorem protected_rejects_witness:
  "get_protected sample_env 0 None = json_error 401 ''Access token required''
   \<and> header_token (Some ''Bearer'') = None
   \<and> get_protected sample_env 0 (Some ''Bearer'') = json_error 401 ''Access token required''
   \<and> header_token (Some ''Bearer '') = Some []
   \<and> get_protected sample_env 0 (Some ''Bearer '') = json_error 401 ''Access token required''
   \<and> jwt_decode sample_env (JWT_SECRET sample_env) ''garbage'' = None
   \<and> get_protected sample_env 0 (Some ''Bearer garbage'') = json_error 403 ''Invalid token''
   \<and> jwt_decode sample_env (JWT_SECRET sample_env)
         (unary_token ''your-secret-key'' (Claims (Fin 1) ''admin'' 5 86405)) =
       Some (Claims (Fin 1) ''admin'' 5 86405)
   \<and> get_protected sample_env 86405000
         (Some (''Bearer '' @ unary_token ''your-secret-key'' (Claims (Fin 1) ''admin'' 5 86405))) =
       json_error 403 ''Invalid token''"
proof -
  let ?tok = "unary_token ''your-secret-key'' (Claims (Fin 1) ''admin'' 5 86405)"
  have h1: "header_token (Some ''Bearer'') = None"
    and h2: "header_token (Some ''Bearer '') = Some []"
    by (simp_all add: header_token_def)
  have g: "jwt_decode sample_env (JWT_SECRET sample_env) ''garbage'' = None"
    by (simp add: sample_env_def garbage_not_a_token)
  have x: "jwt_decode sample_env (JWT_SECRET sample_env) ?tok =
      Some (Claims (Fin 1) ''admin'' 5 86405)"
    by (simp add: sample_env_def unary_roundtrip)
  have tok: "?tok \<noteq> []" "CHR '' '' \<notin> set ?tok"
    by (simp_all add: unary_token_def)
  note r0 = protected_rejects [of sample_env 0 "Some ''Bearer''"]
  note r1 = protected_rejects [of sample_env 0 "Some ''Bearer ''"]
  note r2 = protected_rejects [of sample_env 0 None]
  note r3 = protected_rejects [of sample_env 86405000 None]
  from r0 h1 have a: "get_protected sample_env 0 (Some ''Bearer'') =
      json_error 401 ''Access token required''" by blast
  from r1 h2 have b: "get_protected sample_env 0 (Some ''Bearer '') =
      json_error 401 ''Access token required''" by blast
  from r2 have c: "get_protected sample_env 0 None = json_error 401 ''Access token required''"
    by blast
  from r2 g have d: "get_protected sample_env 0 (Some (''Bearer '' @ ''garbage'')) =
      json_error 403 ''Invalid token''" by simp
  have "claim_exp (Claims (Fin 1) ''admin'' 5 86405) \<le> 86405000 div 1000" by simp
  with r3 x tok have e: "get_protected sample_env 86405000 (Some (''Bearer '' @ ?tok)) =
      json_error 403 ''Invalid token''" by blast
  from a b c d e h1 h2 g x show ?thesis by simp
qed

text \<open>
  Claim C6. With a token codec that gives back what was signed, a login answered with
  200 carries a token which, presented as \<^verbatim>\<open>Bearer <token>\<close> on \<^verbatim>\<open>GET /protected\<close>, is
  accepted (200, with the signed payload) at every time whose clock second lies before the
  token's expiry, and refused with 403 at every time from the expiry second on. The expiry
  is fixed at login: 86400 seconds (24 hours) after the second of issuance.
\<close>

theorem login_token_validity:
  assumes codec: "codec_sound e"
    and login: "status (post_auth_login e t0 b) = 200"
  shows "\<exists>token i name.
           post_auth_login e t0 b = \<lparr>status = 200, body = Login_body token i name\<rparr>
         \<and> (\<forall>now. now div 1000 < t0 div 1000 + 86400 \<longrightarrow>
               get_protected e now (Some (''Bearer '' @ token)) =
                 \<lparr>status = 200,
                  body = Protected_body (''Hello '' @ name @ '', this is a protected route!'')
                           (Claims i name (t0 div 1000) (t0 div 1000 + 86400))\<rparr>)
         \<and> (\<forall>now. t0 div 1000 + 86400 \<le> now div 1000 \<longrightarrow>
               get_protected e now (Some (''Bearer '' @ token)) = json_error 403 ''Invalid token'')"
proof -
  from post_auth_login_ok [OF login] obtain u where
    "u \<in> set authUsers
     \<and> post_auth_login e t0 b =
            \<lparr>status = 200,
             body = Login_body
               (jwt_encode e (JWT_SECRET e)
                  (Claims (au_id u) (au_username u) (t0 div 1000) (t0 div 1000 + expires_24h)))
               (au_id u) (au_username u)\<rparr>" ..
  then have resp: "post_auth_login e t0 b =
            \<lparr>status = 200,
             body = Login_body
               (jwt_encode e (JWT_SECRET e)
                  (Claims (au_id u) (au_username u) (t0 div 1000) (t0 div 1000 + expires_24h)))
               (au_id u) (au_username u)\<rparr>"
    by (rule conjunct2)
  let ?c = "Claims (au_id u) (au_username u) (t0 div 1000) (t0 div 1000 + expires_24h)"
  let ?tok = "jwt_encode e (JWT_SECRET e) ?c"
  from codec have dec: "jwt_decode e (JWT_SECRET e) ?tok = Some ?c"
    and ne: "?tok \<noteq> []" and sp: "CHR '' '' \<notin> set ?tok"
    unfolding codec_sound_def by blast+
  have hdr: "header_token (Some (''Bearer '' @ ?tok)) = Some ?tok"
    using sp by (rule header_token_Bearer)
  have e24: "expires_24h = 86400" by (simp add: expires_24h_def)
  have ok: "get_protected e now (Some (''Bearer '' @ ?tok)) =
      \<lparr>status = 200,
       body = Protected_body (''Hello '' @ au_username u @ '', this is a protected route!'') ?c\<rparr>"
    if "now div 1000 < t0 div 1000 + 86400" for now
    using that hdr ne dec
    by (simp add: get_protected_def authenticateToken_def jwt_verify_def e24)
  have late: "get_protected e now (Some (''Bearer '' @ ?tok)) = json_error 403 ''Invalid token''"
    if "t0 div 1000 + 86400 \<le> now div 1000" for now
    using that hdr ne dec
    by (simp add: get_protected_def authenticateToken_def jwt_verify_def e24)
  from resp ok late show ?thesis unfolding e24 by blast
qed

text \<open>
  The administrator logs in at clock 5000 ms: the token is accepted at 86404999 ms and
  refused at 86405000 ms.
\<close>

theorem login_token_validity_witness:
  "codec_sound sample_env
   \<and> status (post_auth_login sample_env 5000 admin_login) = 200
   \<and> (\<exists>token.
         post_auth_login sample_env 5000 admin_login =
           \<lparr>status = 200, body = Login_body token (Fin 1) ''admin''\<rparr>
       \<and> get_protected sample_env 86404999 (Some (''Bearer '' @ token)) =
           \<lparr>status = 200,
            body = Protected_body ''Hello admin, this is a protected route!''
                     (Claims (Fin 1) ''admin'' 5 86405)\<rparr>
       \<and> get_protected sample_env 86405000 (Some (''Bearer '' @ token)) =
           json_error 403 ''Invalid token'')"
proof -
  from login_token_validity [OF sample_codec_sound admin_login_ok]
  obtain token i name where
    resp: "post_auth_login sample_env 5000 admin_login =
        \<lparr>status = 200, body = Login_body token i name\<rparr>"
    and ok: "\<forall>now. now div 1000 < 5000 div 1000 + 86400 \<longrightarrow>
        get_protected sample_env now (Some (''Bearer '' @ token)) =
          \<lparr>status = 200,
           body = Protected_body (''Hello '' @ name @ '', this is a protected route!'')
                    (Claims i name (5000 div 1000) (5000 div 1000 + 86400))\<rparr>"
    and late: "\<forall>now. 5000 div 1000 + 86400 \<le> now div 1000 \<longrightarrow>
        get_protected sample_env now (Some (''Bearer '' @ token)) =
          json_error 403 ''Invalid token''"
    by blast
  from resp have who: "i = Fin 1" "name = ''admin''"
    by (simp_all add: post_auth_login_def schema_eval admin_login_def authUsers_def
        sample_env_def Let_def)
  have "(86404999::nat) div 1000 < 5000 div 1000 + 86400" by simp
  with ok have a: "get_protected sample_env 86404999 (Some (''Bearer '' @ token)) =
      \<lparr>status = 200,
       body = Protected_body ''Hello admin, this is a protected route!''
                (Claims (Fin 1) ''admin'' 5 86405)\<rparr>"
    using who by simp
  have "(5000::nat) div 1000 + 86400 \<le> 86405000 div 1000" by simp
  with late have b: "get_protected sample_env 86405000 (Some (''Bearer '' @ token)) =
      json_error 403 ''Invalid token''"
    by blast
  from resp who a b sample_codec_sound admin_login_ok show ?thesis by blast
qed

subsection \<open>Claims about rate limiting\<close>

text \<open>
  Claim C2. Take a state in which the client \<open>key\<close> has no open window at time \<open>t0\<close>, and
  a sequence of requests (of any clients) in which those of \<open>key\<close> are 100 in number, the
  first at \<open>t0\<close> and the others before \<open>t0 + 60000\<close> ms. Then all 100 are admitted (none
  is answered 429). The next request of \<open>key\<close>, at a time \<open>now\<close> still inside the window,
  is answered 429 "Rate limit exceeded" whatever its route, header and body are, and the
  user collection is untouched: the request reaches neither authentication nor a route
  handler. After that, once 60000 ms have passed without a request of \<open>key\<close>, again 100
  requests of \<open>key\<close> within one window are all admitted.
\<close>

theorem rate_limit_window:
  assumes fresh: "\<not> window_open (st_limiter st) key t0"
    and burst: "times_of key evs = t0 # ts" "length ts = 99" "\<forall>t\<in>set ts. t < t0 + 60000"
    and nxt: "req_ip req = key" "t0 \<le> now" "now < t0 + 60000"
  shows "length (responses_to key evs (fst (serve e evs st))) = 100
       \<and> (\<forall>x\<in>set (responses_to key evs (fst (serve e evs st))). status x \<noteq> 429)
       \<and> fst (handle e now req (snd (serve e evs st))) = json_error 429 ''Rate limit exceeded''
       \<and> st_users (snd (handle e now req (snd (serve e evs st)))) =
           st_users (snd (serve e evs st))
       \<and> (\<forall>evs2 t1 ts2.
             now + 60000 \<le> t1 \<and> times_of key evs2 = t1 # ts2 \<and> length ts2 = 99
             \<and> (\<forall>t\<in>set ts2. t < t1 + 60000) \<longrightarrow>
             length (responses_to key evs2
               (fst (serve e evs2 (snd (handle e now req (snd (serve e evs st))))))) = 100
           \<and> (\<forall>x\<in>set (responses_to key evs2
                 (fst (serve e evs2 (snd (handle e now req (snd (serve e evs st))))))).
                 status x \<noteq> 429))"
proof -
  let ?s1 = "snd (serve e evs st)"
  let ?r = "\<lparr>rl_value = 100, rl_expiresAt = t0 + 60000\<rparr>"
  from burst(2) have le: "length ts \<le> 99" by simp
  from serve_new_window [OF fresh burst(1) le burst(3), of e]
  have adm: "\<forall>x\<in>set (responses_to key evs (fst (serve e evs st))). status x \<noteq> 429"
    and lim: "st_limiter ?s1 key = Some ?r"
    using burst(2) by simp_all
  have n: "length (responses_to key evs (fst (serve e evs st))) = 100"
    using burst by (simp add: length_responses_to length_serve)
  have con: "consume (st_limiter ?s1) (req_ip req) now =
      (False, (st_limiter ?s1)(key \<mapsto> ?r\<lparr>rl_value := 101\<rparr>))"
    using consume_in_window [of "st_limiter ?s1" key ?r now] lim nxt
    by (simp add: points_def)
  then have rej: "\<not> fst (consume (st_limiter ?s1) (req_ip req) now)" by simp
  have h: "handle e now req ?s1 =
      (json_error 429 ''Rate limit exceeded'',
       ?s1\<lparr>st_limiter := (st_limiter ?s1)(key \<mapsto> ?r\<lparr>rl_value := 101\<rparr>)\<rparr>)"
    using handle_rejected [OF rej, of e] con by simp
  let ?s2 = "snd (handle e now req ?s1)"
  have again: "length (responses_to key evs2 (fst (serve e evs2 ?s2))) = 100
      \<and> (\<forall>x\<in>set (responses_to key evs2 (fst (serve e evs2 ?s2))). status x \<noteq> 429)"
    if idle: "now + 60000 \<le> t1" and b2: "times_of key evs2 = t1 # ts2" "length ts2 = 99"
      "\<forall>t\<in>set ts2. t < t1 + 60000"
    for evs2 t1 ts2
  proof -
    have "st_limiter ?s2 key = Some (?r\<lparr>rl_value := 101\<rparr>)" using h by simp
    then have closed: "\<not> window_open (st_limiter ?s2) key t1"
      using idle nxt(2) by (simp add: window_open_def)
    from b2(2) have le2: "length ts2 \<le> 99" by simp
    from serve_new_window [OF closed b2(1) le2 b2(3), of e]
    have "\<forall>x\<in>set (responses_to key evs2 (fst (serve e evs2 ?s2))). status x \<noteq> 429"
      by simp
    moreover have "length (responses_to key evs2 (fst (serve e evs2 ?s2))) = 100"
      using b2 by (simp add: length_responses_to length_serve)
    ultimately show ?thesis by simp
  qed
  from h have r1: "fst (handle e now req ?s1) = json_error 429 ''Rate limit exceeded''"
    and r2: "st_users ?s2 = st_users ?s1" by simp_all
  have ag: "\<forall>evs2 t1 ts2.
             now + 60000 \<le> t1 \<and> times_of key evs2 = t1 # ts2 \<and> length ts2 = 99
             \<and> (\<forall>t\<in>set ts2. t < t1 + 60000) \<longrightarrow>
             length (responses_to key evs2 (fst (serve e evs2 ?s2))) = 100
           \<and> (\<forall>x\<in>set (responses_to key evs2 (fst (serve e evs2 ?s2))). status x \<noteq> 429)"
  proof (intro allI impI)
    fix evs2 t1 ts2
    assume c: "now + 60000 \<le> t1 \<and> times_of key evs2 = t1 # ts2 \<and> length ts2 = 99
             \<and> (\<forall>t\<in>set ts2. t < t1 + 60000)"
    then have c1: "now + 60000 \<le> t1" and c2: "times_of key evs2 = t1 # ts2"
      and c3: "length ts2 = 99" and c4: "\<forall>t\<in>set ts2. t < t1 + 60000"
      by blast+
    from again [OF c1 c2 c3 c4]
    show "length (responses_to key evs2 (fst (serve e evs2 ?s2))) = 100
        \<and> (\<forall>x\<in>set (responses_to key evs2 (fst (serve e evs2 ?s2))). status x \<noteq> 429)" .
  qed
  show ?thesis
    apply (rule conjI [OF n])
    apply (rule conjI [OF adm])
    apply (rule conjI [OF r1])
    apply (rule conjI [OF r2])
    apply (rule ag)
    done
qed

text \<open>
  One client sends 100 requests at time 0, a request to the protected route at 59999 ms
  (answered 429, not 401), and 100 requests at 119999 ms.
\<close>

theorem rate_limit_window_witness:
  "\<not> window_open (st_limiter app_init) ''10.0.0.1'' 0
   \<and> times_of ''10.0.0.1'' (replicate 100 (0, request_of Get_users no_body)) = 0 # replicate 99 0
   \<and> length (responses_to ''10.0.0.1'' (replicate 100 (0, request_of Get_users no_body))
         (fst (serve sample_env (replicate 100 (0, request_of Get_users no_body)) app_init))) = 100
   \<and> \<not> (\<exists>x\<in>set (responses_to ''10.0.0.1'' (replicate 100 (0, request_of Get_users no_body))
         (fst (serve sample_env (replicate 100 (0, request_of Get_users no_body)) app_init))).
         status x = 429)
   \<and> fst (handle sample_env 59999 (request_of Get_protected no_body)
         (snd (serve sample_env (replicate 100 (0, request_of Get_users no_body)) app_init))) =
       json_error 429 ''Rate limit exceeded''
   \<and> \<not> (\<exists>x\<in>set (responses_to ''10.0.0.1'' (replicate 100 (119999, request_of Get_users no_body))
         (fst (serve sample_env (replicate 100 (119999, request_of Get_users no_body))
           (snd (handle sample_env 59999 (request_of Get_protected no_body)
             (snd (serve sample_env (replicate 100 (0, request_of Get_users no_body))
               app_init))))))).
         status x = 429)"
proof -
  let ?key = "''10.0.0.1''"
  let ?evs = "replicate 100 (0::nat, request_of Get_users no_body)"
  let ?evs2 = "replicate 100 (119999::nat, request_of Get_users no_body)"
  let ?req = "request_of Get_protected no_body"
  have h1: "\<not> window_open (st_limiter app_init) ?key 0"
    by (simp add: window_open_def app_init_def)
  have ip: "req_ip (request_of r b) = ?key" for r b
    by (simp add: request_of_def)
  have h2: "times_of ?key ?evs = 0 # replicate 99 0"
    by (rule times_of_replicate_100 [OF ip])
  have h3: "length (replicate 99 (0::nat)) = 99" by simp
  have h4: "\<forall>t\<in>set (replicate 99 (0::nat)). t < 0 + 60000" by simp
  have h5: "req_ip ?req = ?key" by (rule ip)
  have h6: "(0::nat) \<le> 59999" and h7: "(59999::nat) < 0 + 60000" by simp_all
  note T = rate_limit_window [OF h1 h2 h3 h4 h5 h6 h7, of sample_env]
  let ?s2 = "snd (handle sample_env 59999 ?req (snd (serve sample_env ?evs app_init)))"
  have g2: "times_of ?key ?evs2 = 119999 # replicate 99 119999"
    by (rule times_of_replicate_100 [OF ip])
  have g: "59999 + 60000 \<le> (119999::nat) \<and> times_of ?key ?evs2 = 119999 # replicate 99 119999
      \<and> length (replicate 99 (119999::nat)) = 99
      \<and> (\<forall>t\<in>set (replicate 99 (119999::nat)). t < 119999 + 60000)"
    using g2 by simp
  from T have a: "length (responses_to ?key ?evs (fst (serve sample_env ?evs app_init))) = 100"
    by (rule conjunct1)
  from T [THEN conjunct2]
  have b: "\<forall>x\<in>set (responses_to ?key ?evs (fst (serve sample_env ?evs app_init))).
      status x \<noteq> 429"
    by (rule conjunct1)
  from T [THEN conjunct2, THEN conjunct2]
  have c: "fst (handle sample_env 59999 ?req (snd (serve sample_env ?evs app_init))) =
      json_error 429 ''Rate limit exceeded''"
    by (rule conjunct1)
  from T [THEN conjunct2, THEN conjunct2, THEN conjunct2, THEN conjunct2,
      THEN spec, THEN spec, THEN spec, THEN mp, OF g]
  have d: "\<forall>x\<in>set (responses_to ?key ?evs2 (fst (serve sample_env ?evs2 ?s2))).
      status x \<noteq> 429"
    by (rule conjunct2)
  from b have b': "\<not> (\<exists>x\<in>set (responses_to ?key ?evs (fst (serve sample_env ?evs app_init))).
      status x = 429)" by blast
  from d have d': "\<not> (\<exists>x\<in>set (responses_to ?key ?evs2 (fst (serve sample_env ?evs2 ?s2))).
      status x = 429)" by blast
  show ?thesis
    apply (rule conjI [OF h1])
    apply (rule conjI [OF h2])
    apply (rule conjI [OF a])
    apply (rule conjI [OF b'])
    apply (rule conjI [OF c])
    apply (rule d')
    done
qed

end
